theory Spec2Isabelle
  imports Main "HOL-Library.Char_ord" "HOL-Library.List_Lexorder"
begin

section \<open>Effects: exceptions, processes, clock\<close>

text \<open>
  The engine is asynchronous JavaScript. Its observable effects are kept in a runtime
  state that every operation threads through:
  \<^item> \<open>claudePath\<close> is the module-level cache \<^verbatim>\<open>let claudePath = null\<close>;
  \<^item> \<open>ticks\<close> counts the readings of the system clock made so far;
  \<^item> \<open>trace\<close> is the append-only log of the effects the properties talk about: a unit
    handed to the task runner by the scheduler, \<^verbatim>\<open>runTask\<close> entered, the
    \<^verbatim>\<open>bash -ic 'which claude'\<close> lookup, the agent command, a unit settled by the
    scheduler. The other console lines are not recorded.
\<close>

datatype event =
    TaskStarting nat string
  | Processing string
  | SpawnWhich
  | SpawnAgent string string string string
  | TaskSettled nat bool

record runtime =
  claudePath :: "string option"
  ticks :: nat
  trace :: "event list"

text \<open>
  Everything the code asks of its platform is a field of \<open>world\<close>: the file system
  (fs-extra), the shell (zx), Node's \<^verbatim>\<open>path\<close> module, the clock and the rendering of
  a date. A rejected promise or a thrown exception is \<open>Inl\<close> of its message.
  \<open>env_HOME\<close> is the text \<^verbatim>\<open>${process.env.HOME}\<close> expands to.
  \<open>which_claude\<close> is the standard output of \<^verbatim>\<open>bash -ic 'which claude'\<close> (or its
  failure); \<open>shell_exit cwd content claude log\<close> is the exit status of the agent
  command line of \<^verbatim>\<open>runTask\<close>; \<open>clock k\<close> is the k-th reading of the clock in
  milliseconds.
\<close>

record world =
  env_HOME :: string
  pathExists :: "string \<Rightarrow> string + bool"
  readFile :: "string \<Rightarrow> string + string"
  ensureDir :: "string \<Rightarrow> string option"
  readdir :: "string \<Rightarrow> string + string list"
  isDirectory :: "string \<Rightarrow> string + bool"
  which_claude :: "string + string"
  shell_exit :: "string \<Rightarrow> string \<Rightarrow> string \<Rightarrow> string \<Rightarrow> int"
  dirname :: "string \<Rightarrow> string"
  basename :: "string \<Rightarrow> string"
  join :: "string \<Rightarrow> string \<Rightarrow> string"
  resolve :: "string \<Rightarrow> string"
  clock :: "nat \<Rightarrow> int"
  toISOString :: "int \<Rightarrow> string"

type_synonym 'a io = "runtime \<Rightarrow> (string + 'a) \<times> runtime"

definition return_io :: "'a \<Rightarrow> 'a io" where
  "return_io x = (\<lambda>s. (Inr x, s))"

definition throw_io :: "string \<Rightarrow> 'a io" where
  "throw_io msg = (\<lambda>s. (Inl msg, s))"

definition bind_io :: "'a io \<Rightarrow> ('a \<Rightarrow> 'b io) \<Rightarrow> 'b io" where
  "bind_io m f = (\<lambda>s. case m s of (Inl msg, s') \<Rightarrow> (Inl msg, s') | (Inr x, s') \<Rightarrow> f x s')"

definition catch_io :: "'a io \<Rightarrow> (string \<Rightarrow> 'a io) \<Rightarrow> 'a io" where
  "catch_io m h = (\<lambda>s. case m s of (Inl msg, s') \<Rightarrow> h msg s' | (Inr x, s') \<Rightarrow> (Inr x, s'))"

definition await_io :: "string + 'a \<Rightarrow> 'a io" where
  "await_io r = (\<lambda>s. (r, s))"

definition emit :: "event \<Rightarrow> unit io" where
  "emit ev = (\<lambda>s. (Inr (), s\<lparr>trace := trace s @ [ev]\<rparr>))"

definition read_clock :: "world \<Rightarrow> int io" where
  "read_clock w = (\<lambda>s. (Inr (clock w (ticks s)), s\<lparr>ticks := Suc (ticks s)\<rparr>))"

definition get_claudePath :: "string option io" where
  "get_claudePath = (\<lambda>s. (Inr (claudePath s), s))"

definition set_claudePath :: "string \<Rightarrow> unit io" where
  "set_claudePath p = (\<lambda>s. (Inr (), s\<lparr>claudePath := Some p\<rparr>))"

section \<open>JavaScript strings and numbers\<close>

text \<open>
  Strings are byte lists. \<open>trim\<close> strips the ASCII white space of
  \<^verbatim>\<open>String.prototype.trim\<close>; \<open>js_lines\<close> cuts a text at the line terminators LF
  and CR, the places where \<^verbatim>\<open>^\<close> and \<^verbatim>\<open>$\<close> match under the \<^verbatim>\<open>m\<close> flag.
  \<open>match_line label\<close> is the capture group of \<^verbatim>\<open>/^label(.+)$/m\<close>: the rest of the
  first line that starts with the label and has at least one more character.
  \<open>js_rem\<close> is the remainder operator \<^verbatim>\<open>%\<close>, whose sign follows the dividend.
\<close>

definition js_space :: "char \<Rightarrow> bool" where
  "js_space c = (c \<in> set [CHR '' '', CHR 0x09, CHR 0x0A, CHR 0x0B, CHR 0x0C, CHR 0x0D])"

definition trim :: "string \<Rightarrow> string" where
  "trim s = rev (dropWhile js_space (rev (dropWhile js_space s)))"

definition line_terminator :: "char \<Rightarrow> bool" where
  "line_terminator c = (c = CHR 0x0A \<or> c = CHR 0x0D)"

fun js_lines :: "string \<Rightarrow> string list" where
  "js_lines [] = [[]]"
| "js_lines (c # cs) =
     (if line_terminator c then [] # js_lines cs
      else (case js_lines cs of l # ls \<Rightarrow> (c # l) # ls | [] \<Rightarrow> [[c]]))"

fun match_line :: "string \<Rightarrow> string list \<Rightarrow> string option" where
  "match_line label [] = None"
| "match_line label (l # ls) =
     (if take (length label) l = label \<and> length label < length l
      then Some (drop (length label) l) else match_line label ls)"

fun replace_first :: "char \<Rightarrow> char \<Rightarrow> string \<Rightarrow> string" where
  "replace_first a b [] = []"
| "replace_first a b (c # cs) = (if c = a then b # cs else c # replace_first a b cs)"

definition digit_char :: "nat \<Rightarrow> char" where
  "digit_char d = char_of (48 + d)"

function show_nat :: "nat \<Rightarrow> string" where
  "show_nat n = (if n < 10 then [digit_char n] else show_nat (n div 10) @ [digit_char (n mod 10)])"
  by pat_completeness auto
termination
  by (relation "measure id") auto

definition show_int :: "int \<Rightarrow> string" where
  "show_int i = (if i < 0 then CHR ''-'' # show_nat (nat (- i)) else show_nat (nat i))"

definition js_rem :: "int \<Rightarrow> int \<Rightarrow> int" where
  "js_rem a b = sgn a * (\<bar>a\<bar> mod \<bar>b\<bar>)"

section \<open>utils.mjs\<close>

definition formatTimestamp :: "world \<Rightarrow> string io" where
  "formatTimestamp w =
     bind_io (read_clock w) (\<lambda>now.
       return_io (take 19 (replace_first CHR ''T'' CHR '' '' (toISOString w now))))"

text \<open>The text \<open>formatTimestamp\<close> returns when the clock reads \<open>t\<close>.\<close>

definition timestamp_text :: "world \<Rightarrow> int \<Rightarrow> string" where
  "timestamp_text w t = take 19 (replace_first CHR ''T'' CHR '' '' (toISOString w t))"

definition calculateDuration :: "int \<Rightarrow> int \<Rightarrow> int" where
  "calculateDuration startTime endTime = (endTime - startTime) div 1000"

definition formatDuration :: "int \<Rightarrow> string" where
  "formatDuration durationSeconds =
     (let hours = durationSeconds div 3600;
          minutes = js_rem durationSeconds 3600 div 60;
          seconds = js_rem durationSeconds 60
      in if hours > 0 then
           show_int hours @ ''h '' @ show_int minutes @ ''m '' @ show_int seconds @ ''s''
         else if minutes > 0 then show_int minutes @ ''m '' @ show_int seconds @ ''s''
         else show_int seconds @ ''s'')"

subsection \<open>retryWithBackoff\<close>

text \<open>
  The operation \<open>fn\<close> takes no argument and is called once per attempt, so it is given as
  the outcome of its k-th call: \<open>fn k = Inl e\<close> when that call rejects with \<open>e\<close>,
  \<open>Inr v\<close> when it resolves with \<open>v\<close>. The numbers of the options are integers. The
  log records each call of \<open>fn\<close>, the console lines (which carry the operation name) and
  each \<^verbatim>\<open>setTimeout\<close> delay. \<open>lastError\<close> is \<^verbatim>\<open>undefined\<close> until the first
  failure, which is what the \<^verbatim>\<open>throw\<close> after the loop raises when the loop body never
  ran.
\<close>

record retry_options =
  maxRetries :: int
  initialDelay :: int
  maxDelay :: int
  operationName :: string

datatype retry_event =
    Call nat
  | ConsoleError string int
  | ConsoleLogFailed string int int
  | ConsoleLogRetrying int int
  | SetTimeout int

datatype 'e thrown = Error 'e | Undefined

function retry_loop ::
  "(nat \<Rightarrow> 'e + 'a) \<Rightarrow> retry_options \<Rightarrow> nat \<Rightarrow> 'e option \<Rightarrow> retry_event list
     \<Rightarrow> ('e thrown + 'a) \<times> retry_event list" where
  "retry_loop fn opts attempt lastError log =
     (if int attempt \<le> maxRetries opts then
        (case fn attempt of
           Inr v \<Rightarrow> (Inr v, log @ [Call attempt])
         | Inl e \<Rightarrow>
             if int attempt = maxRetries opts then
               (Inl (Error e),
                log @ [Call attempt, ConsoleError (operationName opts) (maxRetries opts + 1)])
             else
               let delay = min (initialDelay opts * 2 ^ attempt) (maxDelay opts);
                   retryNumber = int attempt + 1;
                   remainingRetries = maxRetries opts - int attempt
               in retry_loop fn opts (Suc attempt) (Some e)
                    (log @ [Call attempt,
                            ConsoleLogFailed (operationName opts) retryNumber
                              (maxRetries opts + 1),
                            ConsoleLogRetrying delay remainingRetries,
                            SetTimeout delay]))
      else (Inl (case lastError of None \<Rightarrow> Undefined | Some e \<Rightarrow> Error e), log))"
  by pat_completeness auto
termination
  by (relation "measure (\<lambda>(fn, opts, attempt, lastError, log).
        nat (maxRetries opts + 1 - int attempt))") auto

definition retryWithBackoff ::
  "(nat \<Rightarrow> 'e + 'a) \<Rightarrow> retry_options \<Rightarrow> ('e thrown + 'a) \<times> retry_event list" where
  "retryWithBackoff fn opts = retry_loop fn opts 0 None []"

definition default_options :: retry_options where
  "default_options =
     \<lparr>maxRetries = 5, initialDelay = 1000, maxDelay = 30000, operationName = ''Operation''\<rparr>"

text \<open>Readings of a retry log: the attempts made and the delays waited, in order.\<close>

fun calls :: "retry_event list \<Rightarrow> nat list" where
  "calls [] = []"
| "calls (Call k # evs) = k # calls evs"
| "calls (_ # evs) = calls evs"

fun delays :: "retry_event list \<Rightarrow> int list" where
  "delays [] = []"
| "delays (SetTimeout d # evs) = d # delays evs"
| "delays (_ # evs) = delays evs"

definition backoff_delay :: "retry_options \<Rightarrow> nat \<Rightarrow> int" where
  "backoff_delay opts k = min (initialDelay opts * 2 ^ k) (maxDelay opts)"

definition failed_round :: "retry_options \<Rightarrow> nat \<Rightarrow> retry_event list" where
  "failed_round opts k =
     [Call k,
      ConsoleLogFailed (operationName opts) (int k + 1) (maxRetries opts + 1),
      ConsoleLogRetrying (backoff_delay opts k) (maxRetries opts - int k),
      SetTimeout (backoff_delay opts k)]"

section \<open>Task runner\<close>

text \<open>
  An Outcome is the object \<^verbatim>\<open>runTask\<close> returns. The two properties that some of its
  return statements leave out, \<^verbatim>\<open>logFile\<close> and \<^verbatim>\<open>error\<close>, are options.
\<close>

record outcome =
  success :: bool
  taskName :: string
  startTimestamp :: string
  endTimestamp :: string
  duration :: int
  formattedDuration :: string
  logFile :: "string option"
  error :: "string option"

definition candidate_paths :: "world \<Rightarrow> string list" where
  "candidate_paths w =
     [env_HOME w @ ''/.claude/local/node_modules/.bin/claude'',
      env_HOME w @ ''/.claude/local/claude'',
      env_HOME w @ ''/.local/bin/claude'',
      ''/usr/local/bin/claude'',
      ''/opt/homebrew/bin/claude'']"

fun first_existing :: "world \<Rightarrow> string list \<Rightarrow> string option" where
  "first_existing w [] = None"
| "first_existing w (p # ps) =
     (case pathExists w p of
        Inr True \<Rightarrow> Some p
      | Inr False \<Rightarrow> first_existing w ps
      | Inl _ \<Rightarrow> first_existing w ps)"

definition detectClaudePath :: "world \<Rightarrow> string io" where
  "detectClaudePath w =
     (case first_existing w (candidate_paths w) of
        Some p \<Rightarrow> return_io p
      | None \<Rightarrow>
          bind_io (emit SpawnWhich) (\<lambda>_.
            catch_io
              (bind_io (await_io (which_claude w)) (\<lambda>stdout.
                 let detectedPath = trim stdout in
                 if detectedPath \<noteq> [] then
                   bind_io (await_io (pathExists w detectedPath)) (\<lambda>found.
                     if found then return_io detectedPath else return_io ''claude'')
                 else return_io ''claude''))
              (\<lambda>_. return_io ''claude'')))"

definition extractRepoPaths :: "world \<Rightarrow> string \<Rightarrow> (string \<times> string) io" where
  "extractRepoPaths w taskFile =
     bind_io (await_io (readFile w taskFile)) (\<lambda>content.
       case match_line ''- **Task Directory**: '' (js_lines content) of
         None \<Rightarrow> throw_io ''Could not extract task directory from task file''
       | Some taskDirMatch \<Rightarrow>
           (case match_line ''- **Repository Code**: '' (js_lines content) of
              None \<Rightarrow> throw_io ''Could not extract repository code path from task file''
            | Some repoCodeMatch \<Rightarrow> return_io (trim taskDirMatch, trim repoCodeMatch)))"

text \<open>
  \<^verbatim>\<open>if (!claudePath) { claudePath = await detectClaudePath(); }\<close>: the cache is used
  unless it is null or the empty string.
\<close>

definition resolve_claudePath :: "world \<Rightarrow> string io" where
  "resolve_claudePath w =
     bind_io (detectClaudePath w) (\<lambda>p. bind_io (set_claudePath p) (\<lambda>_. return_io p))"

definition cached_claudePath :: "world \<Rightarrow> string io" where
  "cached_claudePath w =
     bind_io get_claudePath (\<lambda>cached.
       case cached of
         None \<Rightarrow> resolve_claudePath w
       | Some p \<Rightarrow> if p = [] then resolve_claudePath w else return_io p)"

text \<open>
  \<^verbatim>\<open>runTask\<close> in three parts: what runs before the \<^verbatim>\<open>try\<close> (names, start time),
  the \<^verbatim>\<open>try\<close> block and the outer \<^verbatim>\<open>catch\<close> handler. The inner
  \<^verbatim>\<open>try\<close>/\<^verbatim>\<open>catch\<close> around the agent command is the test of the exit status: zx
  rejects exactly when the command does not exit with status 0.
\<close>

definition runTask_begin :: "world \<Rightarrow> string \<Rightarrow> (string \<times> string \<times> int) io" where
  "runTask_begin w taskFile =
     (let taskDir = dirname w taskFile;
          taskName' = basename w taskDir
      in bind_io (formatTimestamp w) (\<lambda>startTimestamp'.
         bind_io (read_clock w) (\<lambda>startTime.
         bind_io (emit (Processing taskName')) (\<lambda>_.
           return_io (taskName', startTimestamp', startTime)))))"

definition runTask_try ::
  "world \<Rightarrow> string \<Rightarrow> string \<Rightarrow> string \<times> string \<times> int \<Rightarrow> outcome io" where
  "runTask_try w taskFile logFile' ctx =
     (case ctx of (taskName', startTimestamp', startTime) \<Rightarrow>
      bind_io (cached_claudePath w) (\<lambda>claudePath'.
      bind_io (extractRepoPaths w taskFile) (\<lambda>(taskDirPath, repoCodePath).
      bind_io (await_io (pathExists w repoCodePath)) (\<lambda>found.
        if \<not> found then
          throw_io (''Repository code directory does not exist: '' @ repoCodePath)
        else
          bind_io (await_io (readFile w taskFile)) (\<lambda>taskContent.
          bind_io (await_io (case ensureDir w (dirname w logFile') of
                               Some msg \<Rightarrow> Inl msg | None \<Rightarrow> Inr ())) (\<lambda>_.
          let absoluteLogFile = resolve w logFile' in
          bind_io (emit (SpawnAgent repoCodePath taskContent claudePath' absoluteLogFile)) (\<lambda>_.
            if shell_exit w repoCodePath taskContent claudePath' absoluteLogFile \<noteq> 0 then
              bind_io (formatTimestamp w) (\<lambda>endTimestamp'.
              bind_io (read_clock w) (\<lambda>endTime.
                let duration' = calculateDuration startTime endTime;
                    formattedDuration' = formatDuration duration'
                in return_io
                     \<lparr>success = False, taskName = taskName',
                      startTimestamp = startTimestamp', endTimestamp = endTimestamp',
                      duration = duration', formattedDuration = formattedDuration',
                      logFile = Some logFile', error = None\<rparr>))
            else
              bind_io (formatTimestamp w) (\<lambda>endTimestamp'.
              bind_io (read_clock w) (\<lambda>endTime.
                let duration' = calculateDuration startTime endTime;
                    formattedDuration' = formatDuration duration'
                in return_io
                     \<lparr>success = True, taskName = taskName',
                      startTimestamp = startTimestamp', endTimestamp = endTimestamp',
                      duration = duration', formattedDuration = formattedDuration',
                      logFile = Some logFile', error = None\<rparr>)))))))))"

definition runTask_catch :: "world \<Rightarrow> string \<times> string \<times> int \<Rightarrow> string \<Rightarrow> outcome io" where
  "runTask_catch w ctx message =
     (case ctx of (taskName', startTimestamp', startTime) \<Rightarrow>
      bind_io (formatTimestamp w) (\<lambda>endTimestamp'.
      bind_io (read_clock w) (\<lambda>endTime.
        let duration' = calculateDuration startTime endTime;
            formattedDuration' = formatDuration duration'
        in return_io
             \<lparr>success = False, taskName = taskName',
              startTimestamp = startTimestamp', endTimestamp = endTimestamp',
              duration = duration', formattedDuration = formattedDuration',
              logFile = None, error = Some message\<rparr>)))"

definition runTask_rest ::
  "world \<Rightarrow> string \<Rightarrow> string \<Rightarrow> string \<times> string \<times> int \<Rightarrow> outcome io" where
  "runTask_rest w taskFile logFile' ctx =
     catch_io (runTask_try w taskFile logFile' ctx) (runTask_catch w ctx)"

definition runTask :: "world \<Rightarrow> string \<Rightarrow> string \<Rightarrow> outcome io" where
  "runTask w taskFile logFile' =
     bind_io (runTask_begin w taskFile) (runTask_rest w taskFile logFile')"

text \<open>Readings of a trace: the agent commands spawned and the units the runner entered.\<close>

fun agent_spawns :: "event list \<Rightarrow> event list" where
  "agent_spawns [] = []"
| "agent_spawns (SpawnAgent cwd content claude log # evs) =
     SpawnAgent cwd content claude log # agent_spawns evs"
| "agent_spawns (_ # evs) = agent_spawns evs"

fun processed :: "event list \<Rightarrow> string list" where
  "processed [] = []"
| "processed (Processing name # evs) = name # processed evs"
| "processed (_ # evs) = processed evs"

definition new_events :: "runtime \<Rightarrow> runtime \<Rightarrow> event list" where
  "new_events s s' = drop (length (trace s)) (trace s')"

text \<open>
  The identifier of the unit of a task file (the name of the directory that holds it), its
  log file, and the state in which the \<open>try\<close> block of \<open>runTask\<close> starts when
  \<open>runTask\<close> is entered from \<open>s\<close>.
\<close>

definition unit_name :: "world \<Rightarrow> string \<Rightarrow> string" where
  "unit_name w taskFile = basename w (dirname w taskFile)"

definition unit_log :: "world \<Rightarrow> string \<Rightarrow> string" where
  "unit_log w taskFile = join w (dirname w taskFile) ''execution.log''"

definition begun :: "runtime \<Rightarrow> world \<Rightarrow> string \<Rightarrow> runtime" where
  "begun s w taskFile =
     s\<lparr>ticks := Suc (Suc (ticks s)), trace := trace s @ [Processing (unit_name w taskFile)]\<rparr>"

section \<open>Scheduler\<close>

text \<open>
  The two counters of \<^verbatim>\<open>executeWithConcurrency\<close> are fields of the pool while it
  runs and of the object it returns. A pool has the queue of the limiter (unit index and
  task file), the units in flight (index, task file, log file, and the name and start
  time \<^verbatim>\<open>runTask\<close> has computed for them), and one promise per task file, settled
  or not.
\<close>

record counters =
  successful :: nat
  failed :: nat

record pool = counters +
  queue :: "(nat \<times> string) list"
  running :: "(nat \<times> string \<times> string \<times> (string \<times> string \<times> int)) list"
  promises :: "outcome option list"

record execution = counters +
  results :: "outcome list"

definition pick_next :: "nat list \<Rightarrow> nat \<Rightarrow> nat" where
  "pick_next picks n = (case picks of [] \<Rightarrow> 0 | k # _ \<Rightarrow> k mod n)"

fun settled :: "outcome option list \<Rightarrow> outcome list" where
  "settled [] = []"
| "settled (None # ps) = settled ps"
| "settled (Some r # ps) = r # settled ps"

text \<open>
  Modelled from the spec: the limiter \<^verbatim>\<open>pLimit(maxJobs)\<close> of the package p-limit,
  which is not part of the sources. The spec's words are "at most maxConcurrency Task
  Runner invocations may be in flight simultaneously; remaining units queue until a slot
  frees" and "a bounded worker pool: workers pull from a shared queue of WorkUnits; each
  worker runs one Task Runner invocation to completion, then pulls the next unit".
  So: while the queue is not empty and fewer than \<open>maxJobs\<close> units are in flight, the
  head of the queue starts; otherwise one unit in flight completes.

  What wraps the limiter is the callback of \<^verbatim>\<open>executeWithConcurrency\<close>. A unit that
  starts computes its names, prints its line and enters \<^verbatim>\<open>runTask\<close> up to the
  \<^verbatim>\<open>try\<close>; a unit that completes runs the rest of \<^verbatim>\<open>runTask\<close>, fills its promise,
  and increments one of the two counters. Which unit in flight completes next is not
  determined by the code: \<open>picks\<close> chooses it, position \<open>k mod n\<close> among the \<open>n\<close>
  units in flight (position 0 once \<open>picks\<close> is used up), and the properties are proved
  for every \<open>picks\<close>. A promise that rejects makes \<^verbatim>\<open>Promise.all\<close> reject.
\<close>

function run_pool ::
  "world \<Rightarrow> nat \<Rightarrow> nat list \<Rightarrow> pool \<Rightarrow> runtime \<Rightarrow> (string + pool) \<times> runtime" where
  "run_pool w maxJobs picks p s =
     (if queue p \<noteq> [] \<and> length (running p) < maxJobs then
        (case queue p of
           [] \<Rightarrow> (Inr p, s)
         | (i, taskFile) # rest \<Rightarrow>
             let taskDir = dirname w taskFile;
                 taskName' = basename w taskDir;
                 logFile' = join w taskDir ''execution.log''
             in (case bind_io (emit (TaskStarting i taskName'))
                        (\<lambda>_. runTask_begin w taskFile) s of
                   (Inl msg, s') \<Rightarrow> (Inl msg, s')
                 | (Inr ctx, s') \<Rightarrow>
                     run_pool w maxJobs picks
                       (p\<lparr>queue := rest,
                          running := running p @ [(i, taskFile, logFile', ctx)]\<rparr>) s'))
      else if running p \<noteq> [] then
        (let k = pick_next picks (length (running p)) in
         case running p ! k of (i, taskFile, logFile', ctx) \<Rightarrow>
           (case runTask_rest w taskFile logFile' ctx s of
              (Inl msg, s') \<Rightarrow> (Inl msg, s')
            | (Inr result, s') \<Rightarrow>
                run_pool w maxJobs (tl picks)
                  (p\<lparr>running := take k (running p) @ drop (Suc k) (running p),
                     promises := (promises p)[i := Some result],
                     successful := (if success result then successful p + 1 else successful p),
                     failed := (if success result then failed p else failed p + 1)\<rparr>)
                  (s'\<lparr>trace := trace s' @ [TaskSettled i (success result)]\<rparr>)))
      else (Inr p, s))"
  by pat_completeness auto
termination
proof (relation "measure (\<lambda>(w, maxJobs, picks, p, s).
          2 * length (queue p) + length (running p))", goal_cases)
  case 1
  show ?case by simp
next
  case (2 w maxJobs picks p s a rest i taskFile)
  then show ?case by simp
next
  case (3 w maxJobs picks p s k)
  then have "k < length (running p)"
    by (auto simp: pick_next_def split: list.splits)
  then show ?case by simp
qed

text \<open>
  \<^verbatim>\<open>pLimit\<close> accepts a bound from 1 up and throws otherwise. \<^verbatim>\<open>Promise.all\<close>
  resolves with the values of the promises in the order of the array of promises.
\<close>

definition initial_pool :: "string list \<Rightarrow> pool" where
  "initial_pool taskFiles =
     \<lparr>successful = 0, failed = 0,
      queue = enumerate 0 taskFiles, running = [],
      promises = replicate (length taskFiles) None\<rparr>"

definition executeWithConcurrency ::
  "world \<Rightarrow> string list \<Rightarrow> nat \<Rightarrow> nat list \<Rightarrow> execution io" where
  "executeWithConcurrency w taskFiles maxJobs picks =
     (if maxJobs < 1 then throw_io ''Expected concurrency to be a number from 1 and up''
      else
        bind_io (run_pool w maxJobs picks (initial_pool taskFiles)) (\<lambda>p.
          let allResults = settled (promises p)
          in return_io
               \<lparr>successful = successful p, failed = failed p, results = allResults\<rparr>))"

text \<open>
  \<^verbatim>\<open>executeTasks\<close>: the loop over the directory entries, then
  \<^verbatim>\<open>taskFiles.sort()\<close>, which orders strings by their code units; here by their bytes.
  \<open>executeTasks_taskFiles\<close> is the array handed to \<^verbatim>\<open>executeWithConcurrency\<close>.
  The properties \<^verbatim>\<open>startTimestamp\<close>, \<^verbatim>\<open>endTimestamp\<close> and \<^verbatim>\<open>duration\<close> of
  the report it returns are the fields \<open>report_startTimestamp\<close>,
  \<open>report_endTimestamp\<close> and \<open>report_duration\<close>.
\<close>

fun collect_taskFiles :: "world \<Rightarrow> string \<Rightarrow> string list \<Rightarrow> string + string list" where
  "collect_taskFiles w outputDir' [] = Inr []"
| "collect_taskFiles w outputDir' (item # items) =
     (let itemPath = join w outputDir' item in
      case isDirectory w itemPath of
        Inl msg \<Rightarrow> Inl msg
      | Inr False \<Rightarrow> collect_taskFiles w outputDir' items
      | Inr True \<Rightarrow>
          (let taskFilePath = join w itemPath ''task.md'' in
           case pathExists w taskFilePath of
             Inl msg \<Rightarrow> Inl msg
           | Inr found \<Rightarrow>
               (case collect_taskFiles w outputDir' items of
                  Inl msg \<Rightarrow> Inl msg
                | Inr taskFiles \<Rightarrow>
                    Inr (if found then taskFilePath # taskFiles else taskFiles))))"

definition executeTasks_taskFiles :: "world \<Rightarrow> string \<Rightarrow> string list io" where
  "executeTasks_taskFiles w outputDir' =
     bind_io (await_io (pathExists w outputDir')) (\<lambda>found.
       if \<not> found then
         throw_io (outputDir' @
           '' directory not found. Please ensure task generation was successful'')
       else
         bind_io (await_io (readdir w outputDir')) (\<lambda>allItems.
         bind_io (await_io (collect_taskFiles w outputDir' allItems)) (\<lambda>taskFiles.
           let sortedFiles = sort taskFiles in
           if length sortedFiles = 0 then
             throw_io (''No task.md files found in '' @ outputDir' @
                       ''. Please ensure task generation was successful'')
           else return_io sortedFiles)))"

record report = counters +
  totalTasks :: nat
  report_startTimestamp :: string
  report_endTimestamp :: string
  report_duration :: string
  outputDir :: string

definition executeTasks :: "world \<Rightarrow> string \<Rightarrow> nat \<Rightarrow> nat list \<Rightarrow> report io" where
  "executeTasks w outputDir' maxJobs picks =
     bind_io (executeTasks_taskFiles w outputDir') (\<lambda>taskFiles.
     bind_io (formatTimestamp w) (\<lambda>executionStartTimestamp.
     bind_io (read_clock w) (\<lambda>executionStartTime.
     bind_io (executeWithConcurrency w taskFiles maxJobs picks) (\<lambda>result.
     bind_io (formatTimestamp w) (\<lambda>executionEndTimestamp.
     bind_io (read_clock w) (\<lambda>executionEndTime.
       let totalDuration = calculateDuration executionStartTime executionEndTime;
           formattedTotalDuration = formatDuration totalDuration
       in return_io
            \<lparr>successful = successful result, failed = failed result,
             totalTasks = length taskFiles,
             report_startTimestamp = executionStartTimestamp,
             report_endTimestamp = executionEndTimestamp,
             report_duration = formattedTotalDuration,
             outputDir = outputDir'\<rparr>))))))"

text \<open>
  Readings of a trace for the scheduler: the units started and settled so far, and the
  sequence of starts (\<open>True\<close>) and completions (\<open>False\<close>) with the index of the unit.
\<close>

fun started :: "event list \<Rightarrow> nat" where
  "started [] = 0"
| "started (TaskStarting i name # evs) = Suc (started evs)"
| "started (_ # evs) = started evs"

fun completed :: "event list \<Rightarrow> nat" where
  "completed [] = 0"
| "completed (TaskSettled i ok # evs) = Suc (completed evs)"
| "completed (_ # evs) = completed evs"

fun schedule :: "event list \<Rightarrow> (bool \<times> nat) list" where
  "schedule [] = []"
| "schedule (TaskStarting i name # evs) = (True, i) # schedule evs"
| "schedule (TaskSettled i ok # evs) = (False, i) # schedule evs"
| "schedule (_ # evs) = schedule evs"

section \<open>Invariants of the pool\<close>

text \<open>
  What holds of the pool of \<open>run_pool\<close> between two steps, for the task files \<open>tfs\<close>
  and the trace \<open>b\<close> the execution started from. \<open>nstarted\<close> is the number of units
  that have left the queue. \<open>pool_shape\<close>: the queue is the rest of the submitted list;
  the units in flight are distinct, started, and carry their own task file, log file and
  name; the promises still pending are those of the units queued or in flight, and a
  settled promise holds an Outcome of its own unit. \<open>pool_counts\<close>: each counter is the
  number of settled Outcomes of its kind. \<open>pool_trace\<close>: what the trace has recorded
  since \<open>b\<close>.
\<close>

definition nstarted :: "string list \<Rightarrow> pool \<Rightarrow> nat" where
  "nstarted tfs p = length tfs - length (queue p)"

definition pool_shape :: "world \<Rightarrow> string list \<Rightarrow> pool \<Rightarrow> bool" where
  "pool_shape w tfs p =
     (length (queue p) \<le> length tfs
      \<and> queue p = drop (nstarted tfs p) (enumerate 0 tfs)
      \<and> length (promises p) = length tfs
      \<and> distinct (map fst (running p))
      \<and> (\<forall>(i, tf, lf, name, ts, t0) \<in> set (running p).
            i < nstarted tfs p \<and> tf = tfs ! i \<and> lf = unit_log w tf \<and> name = unit_name w tf)
      \<and> (\<forall>i < length tfs.
            (promises p ! i = None) = (nstarted tfs p \<le> i \<or> i \<in> fst ` set (running p)))
      \<and> (\<forall>i < length tfs. \<forall>r. promises p ! i = Some r \<longrightarrow>
            taskName r = unit_name w (tfs ! i)
            \<and> (logFile r = None \<or> logFile r = Some (unit_log w (tfs ! i)))))"

definition pool_counts :: "pool \<Rightarrow> bool" where
  "pool_counts p =
     (successful p = length (filter success (settled (promises p)))
      \<and> failed p = length (filter (\<lambda>r. \<not> success r) (settled (promises p))))"

definition pool_trace ::
  "world \<Rightarrow> string list \<Rightarrow> nat \<Rightarrow> event list \<Rightarrow> pool \<Rightarrow> runtime \<Rightarrow> bool" where
  "pool_trace w tfs m b p s =
     (\<exists>evs. trace s = b @ evs
        \<and> processed evs = map (unit_name w) (take (nstarted tfs p) tfs)
        \<and> started evs = nstarted tfs p
        \<and> completed evs + length (running p) = nstarted tfs p
        \<and> length (running p) \<le> m
        \<and> (\<forall>n \<le> length evs.
              started (take n evs) \<le> completed (take n evs) + m
              \<and> completed (take n evs) \<le> started (take n evs))
        \<and> (m = 1 \<longrightarrow>
              schedule evs =
                concat (map (\<lambda>i. [(True, i), (False, i)])
                          [0..<nstarted tfs p - length (running p)])
                @ map (\<lambda>e. (True, fst e)) (running p)
              \<and> (\<forall>e \<in> set (running p). Suc (fst e) = nstarted tfs p)))"

definition pool_inv ::
  "world \<Rightarrow> string list \<Rightarrow> nat \<Rightarrow> event list \<Rightarrow> pool \<Rightarrow> runtime \<Rightarrow> bool" where
  "pool_inv w tfs m b p s = (pool_shape w tfs p \<and> pool_counts p \<and> pool_trace w tfs m b p s)"

text \<open>The two steps of \<open>run_pool\<close>, as functions of the pool and the state.\<close>

definition start_pool :: "world \<Rightarrow> pool \<Rightarrow> runtime \<Rightarrow> nat \<Rightarrow> string \<Rightarrow> pool" where
  "start_pool w p s i tf =
     p\<lparr>queue := tl (queue p),
       running := running p @
         [(i, tf, unit_log w tf, unit_name w tf, timestamp_text w (clock w (ticks s)),
           clock w (Suc (ticks s)))]\<rparr>"

definition start_state :: "world \<Rightarrow> runtime \<Rightarrow> nat \<Rightarrow> string \<Rightarrow> runtime" where
  "start_state w s i tf =
     s\<lparr>ticks := Suc (Suc (ticks s)),
       trace := trace s @ [TaskStarting i (unit_name w tf), Processing (unit_name w tf)]\<rparr>"

definition finish_pool :: "pool \<Rightarrow> nat \<Rightarrow> nat \<Rightarrow> outcome \<Rightarrow> pool" where
  "finish_pool p k i r =
     p\<lparr>running := take k (running p) @ drop (Suc k) (running p),
       promises := (promises p)[i := Some r],
       successful := (if success r then successful p + 1 else successful p),
       failed := (if success r then failed p else failed p + 1)\<rparr>"

definition finish_state :: "runtime \<Rightarrow> nat \<Rightarrow> outcome \<Rightarrow> runtime" where
  "finish_state s' i r = s'\<lparr>trace := trace s' @ [TaskSettled i (success r)]\<rparr>"

section \<open>Concrete worlds\<close>

text \<open>
  Stand-ins for Node's \<^verbatim>\<open>path.join\<close>, \<^verbatim>\<open>path.dirname\<close> and
  \<^verbatim>\<open>path.basename\<close>, which they agree with on paths of two or more plain segments
  with single slashes and no trailing slash.
\<close>

definition posix_join :: "string \<Rightarrow> string \<Rightarrow> string" where
  "posix_join a b = a @ ''/'' @ b"

definition posix_dirname :: "string \<Rightarrow> string" where
  "posix_dirname p = rev (drop 1 (dropWhile (\<lambda>c. c \<noteq> CHR ''/'') (rev p)))"

definition posix_basename :: "string \<Rightarrow> string" where
  "posix_basename p = rev (takeWhile (\<lambda>c. c \<noteq> CHR ''/'') (rev p))"

definition task_md :: "string \<Rightarrow> string" where
  "task_md dir =
     ''# Task\<newline>- **Task Directory**: '' @ dir @ ''\<newline>- **Repository Code**: '' @ dir @
     ''/repo\<newline>''"

text \<open>
  A tasks directory \<^verbatim>\<open>/t\<close> with three units: 001 is complete and its agent exits 0,
  002 has no repository code directory, the agent of 003 exits 1. The agent is
  installed at \<^verbatim>\<open>/usr/local/bin/claude\<close>. The clock advances one second per reading.
\<close>

definition demo_world :: world where
  "demo_world =
     \<lparr>env_HOME = ''/home/u'',
      pathExists = (\<lambda>p. Inr (p \<in> set [''/usr/local/bin/claude'', ''/t'',
         ''/t/001/task.md'', ''/t/002/task.md'', ''/t/003/task.md'',
         ''/t/001/repo'', ''/t/003/repo''])),
      readFile = (\<lambda>p.
         if p = ''/t/001/task.md'' then Inr (task_md ''/t/001'')
         else if p = ''/t/002/task.md'' then Inr (task_md ''/t/002'')
         else if p = ''/t/003/task.md'' then Inr (task_md ''/t/003'')
         else Inl (''ENOENT: no such file or directory, open '' @ p)),
      ensureDir = (\<lambda>_. None),
      readdir = (\<lambda>p. if p = ''/t'' then Inr [''003'', ''001'', ''notes.txt'', ''002'']
         else Inl ''ENOENT''),
      isDirectory = (\<lambda>p. Inr (p \<noteq> ''/t/notes.txt'')),
      which_claude = Inl ''exit code 1'',
      shell_exit = (\<lambda>cwd content claude log. if cwd = ''/t/003/repo'' then 1 else 0),
      dirname = posix_dirname,
      basename = posix_basename,
      join = posix_join,
      resolve = (\<lambda>p. p),
      clock = (\<lambda>k. 1000 * int k),
      toISOString = (\<lambda>t. ''2025-01-01T00:00:'' @ (if t < 10000 then ''0'' else []) @
         show_int (t div 1000) @ ''.000Z'')\<rparr>"

definition fresh :: runtime where
  "fresh = \<lparr>claudePath = None, ticks = 0, trace = []\<rparr>"

definition demo_files :: "string list" where
  "demo_files = [''/t/001/task.md'', ''/t/002/task.md'', ''/t/003/task.md'']"

text \<open>
  What the demonstration world returns and records for its three units under a bound of
  2 when unit 002 completes first, then unit 003, then unit 001.
\<close>

definition demo_results :: "outcome list" where
  "demo_results =
     [\<lparr>success = True, taskName = ''001'',
       startTimestamp = ''2025-01-01 00:00:00'', endTimestamp = ''2025-01-01 00:00:10'',
       duration = 10, formattedDuration = ''10s'',
       logFile = Some ''/t/001/execution.log'', error = None\<rparr>,
      \<lparr>success = False, taskName = ''002'',
       startTimestamp = ''2025-01-01 00:00:02'', endTimestamp = ''2025-01-01 00:00:04'',
       duration = 2, formattedDuration = ''2s'', logFile = None,
       error = Some ''Repository code directory does not exist: /t/002/repo''\<rparr>,
      \<lparr>success = False, taskName = ''003'',
       startTimestamp = ''2025-01-01 00:00:06'', endTimestamp = ''2025-01-01 00:00:08'',
       duration = 2, formattedDuration = ''2s'',
       logFile = Some ''/t/003/execution.log'', error = None\<rparr>]"

definition demo_trace :: "event list" where
  "demo_trace =
     [TaskStarting 0 ''001'', Processing ''001'', TaskStarting 1 ''002'', Processing ''002'',
      TaskSettled 1 False, TaskStarting 2 ''003'', Processing ''003'',
      SpawnAgent ''/t/003/repo'' (task_md ''/t/003'') ''/usr/local/bin/claude''
        ''/t/003/execution.log'',
      TaskSettled 2 False,
      SpawnAgent ''/t/001/repo'' (task_md ''/t/001'') ''/usr/local/bin/claude''
        ''/t/001/execution.log'',
      TaskSettled 0 True]"

text \<open>
  The same machine without the agent: no candidate file exists, \<^verbatim>\<open>which\<close> finds
  nothing, and the shell ends the command line with status 127 when asked to run
  \<^verbatim>\<open>claude\<close>.
\<close>

definition no_agent_world :: world where
  "no_agent_world =
     demo_world
       \<lparr>pathExists := (\<lambda>p. Inr (p \<in> set [''/t'',
           ''/t/001/task.md'', ''/t/002/task.md'', ''/t/003/task.md'',
           ''/t/001/repo'', ''/t/003/repo''])),
        shell_exit := (\<lambda>cwd content claude log.
           if claude = ''claude'' then 127 else if cwd = ''/t/003/repo'' then 1 else 0)\<rparr>"

text \<open>
  A tasks directory \<^verbatim>\<open>out\<close> whose two units are named \<^verbatim>\<open>a\<close> and \<^verbatim>\<open>a-b\<close>.
\<close>

definition prefix_world :: world where
  "prefix_world =
     demo_world
       \<lparr>pathExists := (\<lambda>p. Inr (p \<in> set [''out'', ''out/a/task.md'', ''out/a-b/task.md''])),
        readdir := (\<lambda>p. if p = ''out'' then Inr [''a'', ''a-b''] else Inl ''ENOENT''),
        isDirectory := (\<lambda>p. Inr True)\<rparr>"

section \<open>The retrier\<close>

declare retry_loop.simps [simp del]

lemma calls_append: "calls (xs @ ys) = calls xs @ calls ys"
  by (induction xs rule: calls.induct) auto

lemma delays_append: "delays (xs @ ys) = delays xs @ delays ys"
  by (induction xs rule: delays.induct) auto

lemma calls_rounds: "calls (concat (map (failed_round opts) [a..<k])) = [a..<k]"
  by (induction k) (auto simp: calls_append failed_round_def)

lemma delays_rounds:
  "delays (concat (map (failed_round opts) [a..<k])) = map (backoff_delay opts) [a..<k]"
  by (induction k) (auto simp: delays_append failed_round_def)

text \<open>A run of failed attempts from \<open>a\<close> up to \<open>k\<close> logs one round each and goes on at \<open>k\<close>.\<close>

lemma retry_loop_failures:
  assumes "\<forall>j. a \<le> j \<and> j < k \<longrightarrow> isl (fn j)" and "a \<le> k" and "int k \<le> maxRetries opts"
  shows "\<exists>le'. retry_loop fn opts a le log =
           retry_loop fn opts k le' (log @ concat (map (failed_round opts) [a..<k]))"
  using assms
proof (induction "k - a" arbitrary: a le log)
  case 0
  then show ?case by auto
next
  case (Suc d)
  then have lt: "a < k" and fl: "isl (fn a)" by auto
  then obtain e where e: "fn a = Inl e" by (cases "fn a") auto
  have step: "retry_loop fn opts a le log =
      retry_loop fn opts (Suc a) (Some e) (log @ failed_round opts a)"
    using lt Suc.prems(3) e
    by (subst retry_loop.simps) (simp add: failed_round_def backoff_delay_def Let_def)
  have "\<exists>le'. retry_loop fn opts (Suc a) (Some e) (log @ failed_round opts a) =
      retry_loop fn opts k le'
        ((log @ failed_round opts a) @ concat (map (failed_round opts) [Suc a..<k]))"
    using Suc by (intro Suc.hyps(1)) auto
  then show ?case using step lt by (auto simp: upt_conv_Cons)
qed

lemma retry_loop_last_failure:
  assumes "fn k = Inl e" and "int k = maxRetries opts"
  shows "retry_loop fn opts k le log =
     (Inl (Error e), log @ [Call k, ConsoleError (operationName opts) (maxRetries opts + 1)])"
  using assms by (subst retry_loop.simps) simp

lemma retry_loop_success:
  assumes "fn k = Inr v" and "int k \<le> maxRetries opts"
  shows "retry_loop fn opts k le log = (Inr v, log @ [Call k])"
  using assms by (subst retry_loop.simps) simp

lemma retryWithBackoff_exhausted:
  assumes "\<forall>j < nat (maxRetries opts). isl (fn j)" and "fn (nat (maxRetries opts)) = Inl e"
    and "0 \<le> maxRetries opts"
  shows "retryWithBackoff fn opts =
     (Inl (Error e),
      concat (map (failed_round opts) [0..<nat (maxRetries opts)]) @
      [Call (nat (maxRetries opts)), ConsoleError (operationName opts) (maxRetries opts + 1)])"
proof -
  obtain le' where "retry_loop fn opts 0 None [] =
      retry_loop fn opts (nat (maxRetries opts)) le'
        ([] @ concat (map (failed_round opts) [0..<nat (maxRetries opts)]))"
    using retry_loop_failures [of 0 "nat (maxRetries opts)" fn opts None "[]"] assms by auto
  then show ?thesis
    using retry_loop_last_failure [of fn "nat (maxRetries opts)" e opts] assms
    by (simp add: retryWithBackoff_def)
qed

lemma retryWithBackoff_first_success:
  assumes "\<forall>j < k. isl (fn j)" and "fn k = Inr v" and "int k \<le> maxRetries opts"
  shows "retryWithBackoff fn opts =
     (Inr v, concat (map (failed_round opts) [0..<k]) @ [Call k])"
proof -
  obtain le' where "retry_loop fn opts 0 None [] =
      retry_loop fn opts k le' ([] @ concat (map (failed_round opts) [0..<k]))"
    using retry_loop_failures [of 0 k fn opts None "[]"] assms by auto
  then show ?thesis
    using retry_loop_success [of fn k v opts] assms
    by (simp add: retryWithBackoff_def)
qed

lemma always_fails_exhausted:
  assumes "\<forall>k. isl (fn k)" and "0 \<le> maxRetries opts"
  shows "calls (snd (retryWithBackoff fn opts)) = [0..<nat (maxRetries opts) + 1]"
    and "delays (snd (retryWithBackoff fn opts)) =
           map (backoff_delay opts) [0..<nat (maxRetries opts)]"
proof -
  have "isl (fn (nat (maxRetries opts)))"
    using assms(1) by blast
  then obtain e where "fn (nat (maxRetries opts)) = Inl e"
    by (cases "fn (nat (maxRetries opts))") auto
  then have run: "retryWithBackoff fn opts =
     (Inl (Error e),
      concat (map (failed_round opts) [0..<nat (maxRetries opts)]) @
      [Call (nat (maxRetries opts)), ConsoleError (operationName opts) (maxRetries opts + 1)])"
    using retryWithBackoff_exhausted [of opts fn e] assms by simp
  show "calls (snd (retryWithBackoff fn opts)) = [0..<nat (maxRetries opts) + 1]"
    by (simp add: run calls_append calls_rounds)
  show "delays (snd (retryWithBackoff fn opts)) =
           map (backoff_delay opts) [0..<nat (maxRetries opts)]"
    by (simp add: run delays_append delays_rounds)
qed

text \<open>
  Claim C4. An operation that always fails is attempted exactly \<open>maxRetries + 1\<close> times
  (attempts 0 to \<open>maxRetries\<close>, each once). The delay waited after failure \<open>k\<close> (counted
  from 0) is \<open>min (initialDelay * 2 ^ k) maxDelay\<close>, so no delay exceeds
  \<open>maxDelay\<close>, and there are \<open>maxRetries\<close> delays. With \<open>maxRetries = 0\<close> there is one
  attempt and no delay. With 3 retries from 1000 ms the delays are 1000, 2000, 4000 under
  a cap of 8000 and 1000, 2000, 3000 under a cap of 3000, after 4 attempts each.
\<close>

theorem retryWithBackoff_attempts_and_delays:
  assumes "\<forall>k. isl (fn k)" and "0 \<le> maxRetries opts"
  shows "calls (snd (retryWithBackoff fn opts)) = [0..<nat (maxRetries opts) + 1]
    \<and> length (calls (snd (retryWithBackoff fn opts))) = nat (maxRetries opts) + 1
    \<and> delays (snd (retryWithBackoff fn opts)) =
        map (\<lambda>k. min (initialDelay opts * 2 ^ k) (maxDelay opts)) [0..<nat (maxRetries opts)]
    \<and> list_all (\<lambda>d. d \<le> maxDelay opts) (delays (snd (retryWithBackoff fn opts)))
    \<and> (if maxRetries opts = 0
        then calls (snd (retryWithBackoff fn opts)) = [0]
           \<and> delays (snd (retryWithBackoff fn opts)) = []
        else True)
    \<and> length (calls (snd (retryWithBackoff fn
          \<lparr>maxRetries = 3, initialDelay = 1000, maxDelay = 8000, operationName = label\<rparr>))) = 4
    \<and> delays (snd (retryWithBackoff fn
          \<lparr>maxRetries = 3, initialDelay = 1000, maxDelay = 8000, operationName = label\<rparr>))
        = [1000, 2000, 4000]
    \<and> length (calls (snd (retryWithBackoff fn
          \<lparr>maxRetries = 3, initialDelay = 1000, maxDelay = 3000, operationName = label\<rparr>))) = 4
    \<and> delays (snd (retryWithBackoff fn
          \<lparr>maxRetries = 3, initialDelay = 1000, maxDelay = 3000, operationName = label\<rparr>))
        = [1000, 2000, 3000]"
proof -
  let ?log = "snd (retryWithBackoff fn opts)"
  have c: "calls ?log = [0..<nat (maxRetries opts) + 1]"
    using always_fails_exhausted(1) [OF assms] .
  have d: "delays ?log = map (backoff_delay opts) [0..<nat (maxRetries opts)]"
    using always_fails_exhausted(2) [OF assms] .
  have d': "delays ?log =
      map (\<lambda>k. min (initialDelay opts * 2 ^ k) (maxDelay opts)) [0..<nat (maxRetries opts)]"
    unfolding d by (simp add: backoff_delay_def)
  have cap: "list_all (\<lambda>d. d \<le> maxDelay opts) (delays ?log)"
    unfolding d' by (simp add: list_all_iff)
  have zero: "maxRetries opts = 0 \<Longrightarrow> calls ?log = [0] \<and> delays ?log = []"
    using c d by simp
  have three: "[0..<3] = [0, 1, Suc 1]" "[0..<4] = [0, 1, 2, 3]"
    by (simp_all add: upt_conv_Cons)
  let ?o1 = "\<lparr>maxRetries = 3, initialDelay = 1000, maxDelay = 8000, operationName = label\<rparr>"
  let ?o2 = "\<lparr>maxRetries = 3, initialDelay = 1000, maxDelay = 3000, operationName = label\<rparr>"
  have c1: "length (calls (snd (retryWithBackoff fn ?o1))) = 4"
    using always_fails_exhausted(1) [OF assms(1), of ?o1] by simp
  have d1: "delays (snd (retryWithBackoff fn ?o1)) = [1000, 2000, 4000]"
    using always_fails_exhausted(2) [OF assms(1), of ?o1]
    by (simp add: backoff_delay_def three)
  have c2: "length (calls (snd (retryWithBackoff fn ?o2))) = 4"
    using always_fails_exhausted(1) [OF assms(1), of ?o2] by simp
  have d2: "delays (snd (retryWithBackoff fn ?o2)) = [1000, 2000, 3000]"
    using always_fails_exhausted(2) [OF assms(1), of ?o2]
    by (simp add: backoff_delay_def three)
  show ?thesis
    using c d' cap zero c1 d1 c2 d2 by simp
qed

theorem retryWithBackoff_attempts_and_delays_witness:
  "(\<forall>k. isl ((\<lambda>k. Inl ''network down'' :: string + unit) k))
   \<and> (0::int) \<le> maxRetries default_options
   \<and> calls (snd (retryWithBackoff (\<lambda>k. Inl ''network down'' :: string + unit) default_options))
       = [0, 1, 2, 3, 4, 5]
   \<and> delays (snd (retryWithBackoff (\<lambda>k. Inl ''network down'' :: string + unit) default_options))
       = [1000, 2000, 4000, 8000, 16000]"
proof -
  have h1: "\<forall>k. isl ((\<lambda>k. Inl ''network down'' :: string + unit) k)" by simp
  have h2: "0 \<le> maxRetries default_options" by (simp add: default_options_def)
  have u: "[0..<5] = [0, 1, 2, 3, 4]" "[0..<6] = [0, 1, 2, 3, 4, 5]"
    by (simp_all add: upt_conv_Cons)
  show ?thesis
    using retryWithBackoff_attempts_and_delays [OF h1 h2, of "''Operation''"]
    by (simp add: default_options_def u)
qed

text \<open>
  The value the retrier returns or raises does not depend on the operation name: the
  name goes to the console lines only.
\<close>

lemma retry_loop_label:
  "fst (retry_loop fn (opts\<lparr>operationName := label\<rparr>) a le log') =
   fst (retry_loop fn opts a le log)"
proof (induction "nat (maxRetries opts + 1 - int a)" arbitrary: a le log log')
  case 0
  then have "\<not> int a \<le> maxRetries opts" by simp
  then show ?case
    by (subst retry_loop.simps, subst (2) retry_loop.simps) simp
next
  case (Suc d)
  then have le: "int a \<le> maxRetries opts" by simp
  show ?case
  proof (cases "fn a")
    case (Inr v)
    then show ?thesis
      using le by (subst retry_loop.simps, subst (2) retry_loop.simps) simp
  next
    case (Inl e)
    show ?thesis
    proof (cases "int a = maxRetries opts")
      case True
      then show ?thesis
        using Inl by (subst retry_loop.simps, subst (2) retry_loop.simps) simp
    next
      case False
      have d: "d = nat (maxRetries opts + 1 - int (Suc a))"
        using Suc.hyps(2) by simp
      show ?thesis
        using Inl le False Suc.hyps(1) [OF d]
        by (subst retry_loop.simps, subst (2) retry_loop.simps) (simp add: Let_def)
    qed
  qed
qed

text \<open>
  Claim C5, as stated, fails in its last part: the value raised on exhaustion is the last
  failure of the operation itself, and the operation name is no part of it. An operation
  that always rejects with \<^verbatim>\<open>timeout\<close> and is retried once makes the retrier raise
  \<^verbatim>\<open>timeout\<close>, whether it is named \<^verbatim>\<open>Cloning u/r\<close> or \<^verbatim>\<open>Fetching\<close>; the
  name is on the two console lines and nowhere else.
\<close>

theorem retryWithBackoff_raises_last_failure_untagged:
  "retryWithBackoff (\<lambda>k. Inl ''timeout'' :: string + unit)
      \<lparr>maxRetries = 1, initialDelay = 1000, maxDelay = 30000,
       operationName = ''Cloning u/r''\<rparr> =
     (Inl (Error ''timeout''),
      [Call 0, ConsoleLogFailed ''Cloning u/r'' 1 2, ConsoleLogRetrying 1000 1,
       SetTimeout 1000, Call 1, ConsoleError ''Cloning u/r'' 2])
   \<and> fst (retryWithBackoff (\<lambda>k. Inl ''timeout'' :: string + unit)
      \<lparr>maxRetries = 1, initialDelay = 1000, maxDelay = 30000,
       operationName = ''Fetching''\<rparr>) = Inl (Error ''timeout'')"
  by code_simp

text \<open>
  Claim C5, amended. If the operation fails on its calls before the k-th and succeeds on
  the k-th, within the allowed attempts, the retrier returns that result after exactly
  k + 1 calls: no call follows the success. If it fails on every allowed attempt, the
  retrier raises the failure of the last call, as it is, and the last thing it does before
  is to print the exhaustion notice, which carries the operation name and the number of
  attempts. What the retrier returns or raises is the same under every operation name.
\<close>

theorem retryWithBackoff_result:
  "((\<forall>j < k. isl (fn j)) \<and> fn k = Inr v \<and> int k \<le> maxRetries opts \<longrightarrow>
      fst (retryWithBackoff fn opts) = Inr v
      \<and> calls (snd (retryWithBackoff fn opts)) = [0..<k + 1])
   \<and> ((\<forall>j < nat (maxRetries opts). isl (fn j)) \<and> fn (nat (maxRetries opts)) = Inl e
        \<and> 0 \<le> maxRetries opts \<longrightarrow>
      fst (retryWithBackoff fn opts) = Inl (Error e)
      \<and> calls (snd (retryWithBackoff fn opts)) = [0..<nat (maxRetries opts) + 1]
      \<and> last (snd (retryWithBackoff fn opts)) =
          ConsoleError (operationName opts) (maxRetries opts + 1))
   \<and> fst (retryWithBackoff fn (opts\<lparr>operationName := label\<rparr>)) =
       fst (retryWithBackoff fn opts)"
proof (intro conjI impI)
  show "fst (retryWithBackoff fn (opts\<lparr>operationName := label\<rparr>)) =
       fst (retryWithBackoff fn opts)"
    unfolding retryWithBackoff_def by (rule retry_loop_label)
next
  assume a: "(\<forall>j < k. isl (fn j)) \<and> fn k = Inr v \<and> int k \<le> maxRetries opts"
  then have run: "retryWithBackoff fn opts =
      (Inr v, concat (map (failed_round opts) [0..<k]) @ [Call k])"
    using retryWithBackoff_first_success [of k fn v opts] by blast
  show "fst (retryWithBackoff fn opts) = Inr v" by (simp add: run)
  show "calls (snd (retryWithBackoff fn opts)) = [0..<k + 1]"
    by (simp add: run calls_append calls_rounds)
next
  assume a: "(\<forall>j < nat (maxRetries opts). isl (fn j)) \<and> fn (nat (maxRetries opts)) = Inl e
        \<and> 0 \<le> maxRetries opts"
  then have run: "retryWithBackoff fn opts =
     (Inl (Error e),
      concat (map (failed_round opts) [0..<nat (maxRetries opts)]) @
      [Call (nat (maxRetries opts)), ConsoleError (operationName opts) (maxRetries opts + 1)])"
    using retryWithBackoff_exhausted [of opts fn e] by blast
  show "fst (retryWithBackoff fn opts) = Inl (Error e)" by (simp add: run)
  show "calls (snd (retryWithBackoff fn opts)) = [0..<nat (maxRetries opts) + 1]"
    by (simp add: run calls_append calls_rounds)
  show "last (snd (retryWithBackoff fn opts)) =
          ConsoleError (operationName opts) (maxRetries opts + 1)"
    by (simp add: run)
qed

theorem retryWithBackoff_result_witness:
  "fst (retryWithBackoff (\<lambda>k. if k < 2 then Inl ''timeout'' else Inr (42::nat))
          default_options) = Inr 42
   \<and> calls (snd (retryWithBackoff (\<lambda>k. if k < 2 then Inl ''timeout'' else Inr (42::nat))
          default_options)) = [0, 1, 2]
   \<and> fst (retryWithBackoff (\<lambda>k. Inl (''timeout'', k) :: (string \<times> nat) + unit)
          (default_options\<lparr>maxRetries := 2, operationName := ''Cloning u/r''\<rparr>))
       = Inl (Error (''timeout'', 2))
   \<and> last (snd (retryWithBackoff (\<lambda>k. Inl (''timeout'', k) :: (string \<times> nat) + unit)
          (default_options\<lparr>maxRetries := 2, operationName := ''Cloning u/r''\<rparr>)))
       = ConsoleError ''Cloning u/r'' 3"
proof -
  have u: "[0..<3] = [0, 1, 2]" by (simp add: upt_conv_Cons)
  have first: "fst (retryWithBackoff (\<lambda>k. if k < 2 then Inl ''timeout'' else Inr (42::nat))
          default_options) = Inr 42
      \<and> calls (snd (retryWithBackoff (\<lambda>k. if k < 2 then Inl ''timeout'' else Inr (42::nat))
          default_options)) = [0, 1, 2]"
    using retryWithBackoff_result
      [of 2 "\<lambda>k. if k < 2 then Inl ''timeout'' else Inr (42::nat)" 42 default_options]
    by (simp add: default_options_def u)
  have second: "fst (retryWithBackoff (\<lambda>k. Inl (''timeout'', k) :: (string \<times> nat) + unit)
          (default_options\<lparr>maxRetries := 2, operationName := ''Cloning u/r''\<rparr>))
       = Inl (Error (''timeout'', 2))
     \<and> last (snd (retryWithBackoff (\<lambda>k. Inl (''timeout'', k) :: (string \<times> nat) + unit)
          (default_options\<lparr>maxRetries := 2, operationName := ''Cloning u/r''\<rparr>)))
       = ConsoleError ''Cloning u/r'' 3"
    using retryWithBackoff_result
      [of _ "\<lambda>k. Inl (''timeout'', k) :: (string \<times> nat) + unit"  _
          "default_options\<lparr>maxRetries := 2, operationName := ''Cloning u/r''\<rparr>"
          "(''timeout'', 2)"]
    by (simp add: default_options_def)
  show ?thesis using first second by simp
qed

section \<open>The task runner\<close>


lemma bind_io_Inr: "m s = (Inr x, s') \<Longrightarrow> bind_io m f s = f x s'"
  by (simp add: bind_io_def)

lemma bind_io_Inl: "m s = (Inl msg, s') \<Longrightarrow> bind_io m f s = (Inl msg, s')"
  by (simp add: bind_io_def)

lemma first_existing_mem: "first_existing w ps = Some p \<Longrightarrow> p \<in> set ps"
  by (induction ps) (auto split: sum.splits bool.splits)

lemma candidate_nonempty: "p \<in> set (candidate_paths w) \<Longrightarrow> p \<noteq> []"
  by (auto simp: candidate_paths_def)

lemma detectClaudePath_effect:
  "\<exists>p evs. detectClaudePath w s = (Inr p, s\<lparr>trace := trace s @ evs\<rparr>) \<and> p \<noteq> []
     \<and> (evs = [] \<or> evs = [SpawnWhich])"
proof (cases "first_existing w (candidate_paths w)")
  case (Some p)
  then have "p \<noteq> []"
    using first_existing_mem candidate_nonempty by blast
  then show ?thesis
    using Some
    by (intro exI [of _ p] exI [of _ "[]"]) (simp add: detectClaudePath_def return_io_def)
next
  case None
  then show ?thesis
    by (auto simp: detectClaudePath_def return_io_def bind_io_def catch_io_def emit_def
        await_io_def Let_def split: sum.splits)
qed

lemma cached_claudePath_effect:
  "\<exists>p evs. cached_claudePath w s = (Inr p, s\<lparr>claudePath := Some p, trace := trace s @ evs\<rparr>)
     \<and> p \<noteq> [] \<and> (evs = [] \<or> evs = [SpawnWhich])"
proof -
  obtain p evs where d: "detectClaudePath w s = (Inr p, s\<lparr>trace := trace s @ evs\<rparr>)"
      "p \<noteq> []" "evs = [] \<or> evs = [SpawnWhich]"
    using detectClaudePath_effect by blast
  then have r: "resolve_claudePath w s =
      (Inr p, s\<lparr>claudePath := Some p, trace := trace s @ evs\<rparr>)"
    by (simp add: resolve_claudePath_def bind_io_def set_claudePath_def return_io_def)
  show ?thesis
  proof (cases "claudePath s")
    case None
    then show ?thesis
      using r d by (auto simp: cached_claudePath_def bind_io_def get_claudePath_def)
  next
    case (Some q)
    show ?thesis
    proof (cases "q = []")
      case True
      then show ?thesis
        using r d Some by (auto simp: cached_claudePath_def bind_io_def get_claudePath_def)
    next
      case False
      have "s\<lparr>claudePath := Some q, trace := trace s @ []\<rparr> = s"
        using Some by simp
      then show ?thesis
        using False Some
        by (intro exI [of _ q] exI [of _ "[]"])
          (simp add: cached_claudePath_def bind_io_def get_claudePath_def return_io_def)
    qed
  qed
qed

text \<open>
  The shell lookup runs exactly when no candidate file exists, and the resolution runs
  exactly when the cache holds no path.
\<close>

lemma detectClaudePath_events:
  "trace (snd (detectClaudePath w s)) =
     trace s @ (if first_existing w (candidate_paths w) = None then [SpawnWhich] else [])"
  by (auto simp: detectClaudePath_def return_io_def bind_io_def catch_io_def emit_def
      await_io_def Let_def split: sum.splits option.splits)

lemma cached_claudePath_events:
  "trace (snd (cached_claudePath w s)) =
     trace s @ (if (claudePath s = None \<or> claudePath s = Some [])
                   \<and> first_existing w (candidate_paths w) = None
               then [SpawnWhich] else [])"
proof -
  obtain p evs where d: "detectClaudePath w s = (Inr p, s\<lparr>trace := trace s @ evs\<rparr>)"
    using detectClaudePath_effect by blast
  have evs: "evs = (if first_existing w (candidate_paths w) = None then [SpawnWhich] else [])"
    using detectClaudePath_events [of w s] d by simp
  have r: "resolve_claudePath w s =
      (Inr p, s\<lparr>claudePath := Some p, trace := trace s @ evs\<rparr>)"
    using d by (simp add: resolve_claudePath_def bind_io_def set_claudePath_def return_io_def)
  show ?thesis
    using r evs
    by (auto simp: cached_claudePath_def bind_io_def get_claudePath_def return_io_def
        split: option.splits)
qed

text \<open>
  The path the \<open>try\<close> block goes on with is the cached one, or else the one
  \<open>detectClaudePath\<close> returns, which does not depend on the state.
\<close>

lemma detectClaudePath_indep: "fst (detectClaudePath w s) = fst (detectClaudePath w s')"
  by (auto simp: detectClaudePath_def return_io_def bind_io_def catch_io_def emit_def
      await_io_def Let_def split: sum.splits option.splits)

lemma cached_claudePath_value:
  assumes "cached_claudePath w s = (Inr cp, s')"
  shows "claudePath s = Some cp
       \<or> ((claudePath s = None \<or> claudePath s = Some [])
           \<and> fst (detectClaudePath w s) = Inr cp)"
proof -
  obtain p evs where d: "detectClaudePath w s = (Inr p, s\<lparr>trace := trace s @ evs\<rparr>)"
    using detectClaudePath_effect by blast
  have r: "resolve_claudePath w s =
      (Inr p, s\<lparr>claudePath := Some p, trace := trace s @ evs\<rparr>)"
    using d by (simp add: resolve_claudePath_def bind_io_def set_claudePath_def return_io_def)
  show ?thesis
    using assms r d
    by (auto simp: cached_claudePath_def bind_io_def get_claudePath_def return_io_def
        split: option.splits if_splits)
qed

lemma extractRepoPaths_state: "snd (extractRepoPaths w taskFile s) = s"
  by (auto simp: extractRepoPaths_def bind_io_def await_io_def throw_io_def return_io_def
      split: sum.splits option.splits)

lemma extractRepoPaths_indep:
  "fst (extractRepoPaths w taskFile s) = fst (extractRepoPaths w taskFile s')"
  by (auto simp: extractRepoPaths_def bind_io_def await_io_def throw_io_def return_io_def
      split: sum.splits option.splits)

lemma formatTimestamp_effect:
  "formatTimestamp w s =
     (Inr (timestamp_text w (clock w (ticks s))), s\<lparr>ticks := Suc (ticks s)\<rparr>)"
  by (simp add: formatTimestamp_def bind_io_def read_clock_def return_io_def timestamp_text_def)

lemma runTask_begin_effect:
  "runTask_begin w taskFile s =
     (Inr (unit_name w taskFile, timestamp_text w (clock w (ticks s)),
           clock w (Suc (ticks s))),
      s\<lparr>ticks := Suc (Suc (ticks s)), trace := trace s @ [Processing (unit_name w taskFile)]\<rparr>)"
  by (simp add: runTask_begin_def Let_def bind_io_def formatTimestamp_effect read_clock_def
      emit_def return_io_def unit_name_def)

lemma runTask_catch_effect:
  "runTask_catch w (name, ts, t0) msg s =
     (Inr \<lparr>success = False, taskName = name, startTimestamp = ts,
           endTimestamp = timestamp_text w (clock w (ticks s)),
           duration = calculateDuration t0 (clock w (Suc (ticks s))),
           formattedDuration = formatDuration (calculateDuration t0 (clock w (Suc (ticks s)))),
           logFile = None, error = Some msg\<rparr>,
      s\<lparr>ticks := Suc (Suc (ticks s))\<rparr>)"
  by (simp add: runTask_catch_def Let_def bind_io_def formatTimestamp_effect read_clock_def
      return_io_def)


text \<open>
  The \<open>try\<close> block either raises before the agent command is reached, or runs the command
  once, with a non-empty executable path, and returns the Outcome its exit status decides.
\<close>

lemma runTask_try_cases:
  obtains (raised) s' pre msg where
      "pre = [] \<or> pre = [SpawnWhich]"
      "runTask_try w tf lf (name, ts, t0) s = (Inl msg, s')"
      "ticks s' = ticks s" "trace s' = trace s @ pre"
      "fst (extractRepoPaths w tf s) = Inl msg
       \<or> (\<exists>td rc. fst (extractRepoPaths w tf s) = Inr (td, rc)
            \<and> (pathExists w rc = Inl msg
               \<or> (pathExists w rc = Inr False
                   \<and> msg = ''Repository code directory does not exist: '' @ rc)
               \<or> (pathExists w rc = Inr True
                   \<and> (readFile w tf = Inl msg \<or> ensureDir w (dirname w lf) = Some msg))))"
      "pre = (if (claudePath s = None \<or> claudePath s = Some [])
                   \<and> first_existing w (candidate_paths w) = None
               then [SpawnWhich] else [])"
  | (spawned) s' pre td cwd content cp where
      "pre = [] \<or> pre = [SpawnWhich]" "cp \<noteq> []"
      "fst (extractRepoPaths w tf s) = Inr (td, cwd)" "pathExists w cwd = Inr True"
      "readFile w tf = Inr content" "ensureDir w (dirname w lf) = None"
      "trace s' = trace s @ pre @ [SpawnAgent cwd content cp (resolve w lf)]"
      "runTask_try w tf lf (name, ts, t0) s =
         (Inr \<lparr>success = (shell_exit w cwd content cp (resolve w lf) = 0),
               taskName = name, startTimestamp = ts,
               endTimestamp = timestamp_text w (clock w (ticks s)),
               duration = calculateDuration t0 (clock w (Suc (ticks s))),
               formattedDuration =
                 formatDuration (calculateDuration t0 (clock w (Suc (ticks s)))),
               logFile = Some lf, error = None\<rparr>, s')"
      "pre = (if (claudePath s = None \<or> claudePath s = Some [])
                   \<and> first_existing w (candidate_paths w) = None
               then [SpawnWhich] else [])"
      "claudePath s = Some cp
       \<or> ((claudePath s = None \<or> claudePath s = Some [])
           \<and> fst (detectClaudePath w s) = Inr cp)"
proof -
  obtain cp pre where c:
      "cached_claudePath w s = (Inr cp, s\<lparr>claudePath := Some cp, trace := trace s @ pre\<rparr>)"
      "cp \<noteq> []" "pre = [] \<or> pre = [SpawnWhich]"
    using cached_claudePath_effect by blast
  have w: "pre = (if (claudePath s = None \<or> claudePath s = Some [])
                   \<and> first_existing w (candidate_paths w) = None
               then [SpawnWhich] else [])"
    using cached_claudePath_events [of w s] c(1) by simp
  have v: "claudePath s = Some cp
       \<or> ((claudePath s = None \<or> claudePath s = Some [])
           \<and> fst (detectClaudePath w s) = Inr cp)"
    using c(1) by (rule cached_claudePath_value)
  let ?s1 = "s\<lparr>claudePath := Some cp, trace := trace s @ pre\<rparr>"
  have st: "snd (extractRepoPaths w tf ?s1) = ?s1"
    by (rule extractRepoPaths_state)
  have ind: "fst (extractRepoPaths w tf ?s1) = fst (extractRepoPaths w tf s)"
    by (rule extractRepoPaths_indep)
  show ?thesis
  proof (cases "fst (extractRepoPaths w tf s)")
    case (Inl msg)
    then have "extractRepoPaths w tf ?s1 = (Inl msg, ?s1)"
      using st ind by (metis prod.collapse)
    then have "runTask_try w tf lf (name, ts, t0) s = (Inl msg, ?s1)"
      using c(1) by (simp add: runTask_try_def bind_io_def)
    then show ?thesis
      using c(3) w Inl by (intro raised [of pre msg ?s1]) simp_all
  next
    case (Inr pr)
    obtain td rc where pr: "pr = (td, rc)" by (cases pr)
    have e: "extractRepoPaths w tf ?s1 = (Inr (td, rc), ?s1)"
      using st ind Inr pr by (metis prod.collapse)
    have step: "runTask_try w tf lf (name, ts, t0) s =
        bind_io (await_io (pathExists w rc)) (\<lambda>found.
        if \<not> found then
          throw_io (''Repository code directory does not exist: '' @ rc)
        else
          bind_io (await_io (readFile w tf)) (\<lambda>taskContent.
          bind_io (await_io (case ensureDir w (dirname w lf) of
                               Some msg \<Rightarrow> Inl msg | None \<Rightarrow> Inr ())) (\<lambda>_.
          let absoluteLogFile = resolve w lf in
          bind_io (emit (SpawnAgent rc taskContent cp absoluteLogFile)) (\<lambda>_.
            if shell_exit w rc taskContent cp absoluteLogFile \<noteq> 0 then
              bind_io (formatTimestamp w) (\<lambda>endTimestamp'.
              bind_io (read_clock w) (\<lambda>endTime.
                let duration' = calculateDuration t0 endTime;
                    formattedDuration' = formatDuration duration'
                in return_io
                     \<lparr>success = False, taskName = name,
                      startTimestamp = ts, endTimestamp = endTimestamp',
                      duration = duration', formattedDuration = formattedDuration',
                      logFile = Some lf, error = None\<rparr>))
            else
              bind_io (formatTimestamp w) (\<lambda>endTimestamp'.
              bind_io (read_clock w) (\<lambda>endTime.
                let duration' = calculateDuration t0 endTime;
                    formattedDuration' = formatDuration duration'
                in return_io
                     \<lparr>success = True, taskName = name,
                      startTimestamp = ts, endTimestamp = endTimestamp',
                      duration = duration', formattedDuration = formattedDuration',
                      logFile = Some lf, error = None\<rparr>)))))) ?s1"
      using c(1) e by (simp add: runTask_try_def bind_io_def)
    show ?thesis
    proof (cases "pathExists w rc")
      case (Inl msg)
      then have "runTask_try w tf lf (name, ts, t0) s = (Inl msg, ?s1)"
        unfolding step by (simp add: bind_io_def await_io_def)
      then show ?thesis
        using c(3) w Inr pr Inl by (intro raised [of pre msg ?s1]) simp_all
    next
      case found: (Inr found)
      show ?thesis
      proof (cases found)
        case False
        then have "runTask_try w tf lf (name, ts, t0) s =
            (Inl (''Repository code directory does not exist: '' @ rc), ?s1)"
          unfolding step using found by (simp add: bind_io_def await_io_def throw_io_def)
        then show ?thesis
          using c(3) w Inr pr found False
          by (intro raised [of pre "''Repository code directory does not exist: '' @ rc" ?s1])
            simp_all
      next
        case True
        show ?thesis
        proof (cases "readFile w tf")
          case (Inl msg)
          then have "runTask_try w tf lf (name, ts, t0) s = (Inl msg, ?s1)"
            unfolding step using found True by (simp add: bind_io_def await_io_def)
          then show ?thesis
            using c(3) w Inr pr found True Inl by (intro raised [of pre msg ?s1]) simp_all
        next
          case content: (Inr content)
          show ?thesis
          proof (cases "ensureDir w (dirname w lf)")
            case (Some msg)
            then have "runTask_try w tf lf (name, ts, t0) s = (Inl msg, ?s1)"
              unfolding step using found True content by (simp add: bind_io_def await_io_def)
            then show ?thesis
              using c(3) w Inr pr found True content Some
              by (intro raised [of pre msg ?s1]) simp_all
          next
            case None
            let ?s2 = "?s1\<lparr>trace := trace ?s1 @ [SpawnAgent rc content cp (resolve w lf)],
                           ticks := Suc (Suc (ticks s))\<rparr>"
            have run: "runTask_try w tf lf (name, ts, t0) s =
                (Inr \<lparr>success = (shell_exit w rc content cp (resolve w lf) = 0),
                      taskName = name, startTimestamp = ts,
                      endTimestamp = timestamp_text w (clock w (ticks s)),
                      duration = calculateDuration t0 (clock w (Suc (ticks s))),
                      formattedDuration =
                        formatDuration (calculateDuration t0 (clock w (Suc (ticks s)))),
                      logFile = Some lf, error = None\<rparr>, ?s2)"
              unfolding step using found True content None
              by (simp add: bind_io_def await_io_def emit_def Let_def formatTimestamp_effect
                  read_clock_def return_io_def)
            show ?thesis
              using c(2,3) w v Inr pr found True content None run
              by (intro spawned [of pre cp td rc content ?s2]) simp_all
          qed
        qed
      qed
    qed
  qed
qed

lemma agent_spawns_append: "agent_spawns (xs @ ys) = agent_spawns xs @ agent_spawns ys"
  by (induction xs rule: agent_spawns.induct) auto

lemma processed_append: "processed (xs @ ys) = processed xs @ processed ys"
  by (induction xs rule: processed.induct) auto

lemma new_events_append: "trace s' = trace s @ evs \<Longrightarrow> new_events s s' = evs"
  by (simp add: new_events_def)

text \<open>
  With the \<open>catch\<close> handler around it, the rest of \<open>runTask\<close> always returns an Outcome:
  the handler's Outcome when the \<open>try\<close> block raised, the block's own otherwise.
\<close>

lemma runTask_rest_cases:
  obtains (raised) r s' pre msg where
      "runTask_rest w tf lf (name, ts, t0) s = (Inr r, s')"
      "pre = [] \<or> pre = [SpawnWhich]"
      "fst (runTask_try w tf lf (name, ts, t0) s) = Inl msg"
      "trace s' = trace s @ pre"
      "r = \<lparr>success = False, taskName = name, startTimestamp = ts,
             endTimestamp = timestamp_text w (clock w (ticks s)),
             duration = calculateDuration t0 (clock w (Suc (ticks s))),
             formattedDuration =
               formatDuration (calculateDuration t0 (clock w (Suc (ticks s)))),
             logFile = None, error = Some msg\<rparr>"
      "fst (extractRepoPaths w tf s) = Inl msg
       \<or> (\<exists>td rc. fst (extractRepoPaths w tf s) = Inr (td, rc)
            \<and> (pathExists w rc = Inl msg
               \<or> (pathExists w rc = Inr False
                   \<and> msg = ''Repository code directory does not exist: '' @ rc)
               \<or> (pathExists w rc = Inr True
                   \<and> (readFile w tf = Inl msg \<or> ensureDir w (dirname w lf) = Some msg))))"
      "pre = (if (claudePath s = None \<or> claudePath s = Some [])
                   \<and> first_existing w (candidate_paths w) = None
               then [SpawnWhich] else [])"
  | (spawned) r s' pre td cwd content cp where
      "runTask_rest w tf lf (name, ts, t0) s = (Inr r, s')"
      "pre = [] \<or> pre = [SpawnWhich]" "cp \<noteq> []"
      "fst (runTask_try w tf lf (name, ts, t0) s) = Inr r"
      "fst (extractRepoPaths w tf s) = Inr (td, cwd)" "pathExists w cwd = Inr True"
      "readFile w tf = Inr content" "ensureDir w (dirname w lf) = None"
      "trace s' = trace s @ pre @ [SpawnAgent cwd content cp (resolve w lf)]"
      "r = \<lparr>success = (shell_exit w cwd content cp (resolve w lf) = 0),
             taskName = name, startTimestamp = ts,
             endTimestamp = timestamp_text w (clock w (ticks s)),
             duration = calculateDuration t0 (clock w (Suc (ticks s))),
             formattedDuration =
               formatDuration (calculateDuration t0 (clock w (Suc (ticks s)))),
             logFile = Some lf, error = None\<rparr>"
      "pre = (if (claudePath s = None \<or> claudePath s = Some [])
                   \<and> first_existing w (candidate_paths w) = None
               then [SpawnWhich] else [])"
      "claudePath s = Some cp
       \<or> ((claudePath s = None \<or> claudePath s = Some [])
           \<and> fst (detectClaudePath w s) = Inr cp)"
proof (cases rule: runTask_try_cases [where w=w and tf=tf and lf=lf and name=name and ts=ts
      and ?t0.0=t0 and s=s])
  case (raised s1 pre msg)
  let ?r = "\<lparr>success = False, taskName = name, startTimestamp = ts,
             endTimestamp = timestamp_text w (clock w (ticks s)),
             duration = calculateDuration t0 (clock w (Suc (ticks s))),
             formattedDuration =
               formatDuration (calculateDuration t0 (clock w (Suc (ticks s)))),
             logFile = None, error = Some msg\<rparr>"
  have "runTask_rest w tf lf (name, ts, t0) s = (Inr ?r, s1\<lparr>ticks := Suc (Suc (ticks s1))\<rparr>)"
    using raised(2,3) by (simp add: runTask_rest_def catch_io_def runTask_catch_effect)
  then show ?thesis
    using raised
    by (intro that(1) [of ?r "s1\<lparr>ticks := Suc (Suc (ticks s1))\<rparr>" pre msg]) simp_all
next
  case (spawned s1 pre td cwd content cp)
  let ?r = "\<lparr>success = (shell_exit w cwd content cp (resolve w lf) = 0),
             taskName = name, startTimestamp = ts,
             endTimestamp = timestamp_text w (clock w (ticks s)),
             duration = calculateDuration t0 (clock w (Suc (ticks s))),
             formattedDuration =
               formatDuration (calculateDuration t0 (clock w (Suc (ticks s)))),
             logFile = Some lf, error = None\<rparr>"
  have "runTask_rest w tf lf (name, ts, t0) s = (Inr ?r, s1)"
    using spawned(8) by (simp add: runTask_rest_def catch_io_def)
  then show ?thesis
    using spawned
    by (intro that(2) [of ?r s1 pre cp td cwd content]) simp_all
qed

lemma runTask_rest_total: "\<exists>r s'. runTask_rest w tf lf ctx s = (Inr r, s')"
proof -
  obtain name ts t0 where "ctx = (name, ts, t0)" by (cases ctx)
  then show ?thesis
    by (cases rule: runTask_rest_cases [where w=w and tf=tf and lf=lf and name=name and ts=ts
          and ?t0.0=t0 and s=s]) auto
qed

text \<open>The whole of \<open>runTask\<close>, from a state whose clock has been read \<open>ticks s\<close> times.\<close>

lemma runTask_cases:
  obtains (raised) r s' pre msg where
      "runTask w tf lf s = (Inr r, s')"
      "pre = [] \<or> pre = [SpawnWhich]"
      "fst (runTask_try w tf lf
              (unit_name w tf, timestamp_text w (clock w (ticks s)), clock w (Suc (ticks s)))
              (begun s w tf)) = Inl msg"
      "trace s' = trace s @ [Processing (unit_name w tf)] @ pre"
      "r = \<lparr>success = False, taskName = unit_name w tf,
             startTimestamp = timestamp_text w (clock w (ticks s)),
             endTimestamp = timestamp_text w (clock w (Suc (Suc (ticks s)))),
             duration = calculateDuration (clock w (Suc (ticks s))) (clock w (Suc (Suc (Suc (ticks s))))),
             formattedDuration = formatDuration
               (calculateDuration (clock w (Suc (ticks s))) (clock w (Suc (Suc (Suc (ticks s)))))),
             logFile = None, error = Some msg\<rparr>"
      "fst (extractRepoPaths w tf s) = Inl msg
       \<or> (\<exists>td rc. fst (extractRepoPaths w tf s) = Inr (td, rc)
            \<and> (pathExists w rc = Inl msg
               \<or> (pathExists w rc = Inr False
                   \<and> msg = ''Repository code directory does not exist: '' @ rc)
               \<or> (pathExists w rc = Inr True
                   \<and> (readFile w tf = Inl msg \<or> ensureDir w (dirname w lf) = Some msg))))"
      "pre = (if (claudePath s = None \<or> claudePath s = Some [])
                   \<and> first_existing w (candidate_paths w) = None
               then [SpawnWhich] else [])"
  | (spawned) r s' pre td cwd content cp where
      "runTask w tf lf s = (Inr r, s')"
      "pre = [] \<or> pre = [SpawnWhich]" "cp \<noteq> []"
      "fst (extractRepoPaths w tf s) = Inr (td, cwd)" "pathExists w cwd = Inr True"
      "readFile w tf = Inr content" "ensureDir w (dirname w lf) = None"
      "trace s' = trace s @ [Processing (unit_name w tf)] @ pre @
                    [SpawnAgent cwd content cp (resolve w lf)]"
      "fst (runTask_try w tf lf
              (unit_name w tf, timestamp_text w (clock w (ticks s)), clock w (Suc (ticks s)))
              (begun s w tf)) = Inr r"
      "r = \<lparr>success = (shell_exit w cwd content cp (resolve w lf) = 0),
             taskName = unit_name w tf,
             startTimestamp = timestamp_text w (clock w (ticks s)),
             endTimestamp = timestamp_text w (clock w (Suc (Suc (ticks s)))),
             duration = calculateDuration (clock w (Suc (ticks s))) (clock w (Suc (Suc (Suc (ticks s))))),
             formattedDuration = formatDuration
               (calculateDuration (clock w (Suc (ticks s))) (clock w (Suc (Suc (Suc (ticks s)))))),
             logFile = Some lf, error = None\<rparr>"
      "pre = (if (claudePath s = None \<or> claudePath s = Some [])
                   \<and> first_existing w (candidate_paths w) = None
               then [SpawnWhich] else [])"
      "claudePath s = Some cp
       \<or> ((claudePath s = None \<or> claudePath s = Some [])
           \<and> fst (detectClaudePath w s) = Inr cp)"
proof -
  let ?ctx = "(unit_name w tf, timestamp_text w (clock w (ticks s)), clock w (Suc (ticks s)))"
  have b: "runTask_begin w tf s = (Inr ?ctx, begun s w tf)"
    by (simp add: runTask_begin_effect begun_def)
  have run: "runTask w tf lf s = runTask_rest w tf lf ?ctx (begun s w tf)"
    by (simp add: runTask_def bind_io_def b)
  have ex: "fst (extractRepoPaths w tf (begun s w tf)) = fst (extractRepoPaths w tf s)"
    by (rule extractRepoPaths_indep)
  have tk: "ticks (begun s w tf) = Suc (Suc (ticks s))"
    and tr: "trace (begun s w tf) = trace s @ [Processing (unit_name w tf)]"
    and cp: "claudePath (begun s w tf) = claudePath s"
    by (simp_all add: begun_def)
  have dt: "fst (detectClaudePath w (begun s w tf)) = fst (detectClaudePath w s)"
    by (rule detectClaudePath_indep)
  show ?thesis
  proof (cases rule: runTask_rest_cases [where w=w and tf=tf and lf=lf
        and name="unit_name w tf" and ts="timestamp_text w (clock w (ticks s))"
        and ?t0.0="clock w (Suc (ticks s))" and s="begun s w tf"])
    case (raised r s' pre msg)
    then show ?thesis
      using run ex tk tr cp by (intro that(1) [of r s' pre msg]) simp_all
  next
    case (spawned r s' pre td cwd content cp)
    then show ?thesis
      using run ex tk tr cp dt by (intro that(2) [of r s' pre cp td cwd content]) simp_all
  qed
qed

section \<open>Properties of the task runner\<close>

lemma demo_extract_002:
  "fst (extractRepoPaths demo_world ''/t/002/task.md'' fresh) = Inr (''/t/002'', ''/t/002/repo'')"
  by code_simp

lemma demo_run_001:
  "runTask demo_world ''/t/001/task.md'' ''/t/001/execution.log'' fresh =
     (Inr \<lparr>success = True, taskName = ''001'',
           startTimestamp = ''2025-01-01 00:00:00'', endTimestamp = ''2025-01-01 00:00:02'',
           duration = 2, formattedDuration = ''2s'',
           logFile = Some ''/t/001/execution.log'', error = None\<rparr>,
      \<lparr>claudePath = Some ''/usr/local/bin/claude'', ticks = 4,
       trace = [Processing ''001'',
                SpawnAgent ''/t/001/repo'' (task_md ''/t/001'') ''/usr/local/bin/claude''
                  ''/t/001/execution.log'']\<rparr>)"
  by code_simp

lemma demo_run_002:
  "runTask demo_world ''/t/002/task.md'' ''/t/002/execution.log'' fresh =
     (Inr \<lparr>success = False, taskName = ''002'',
           startTimestamp = ''2025-01-01 00:00:00'', endTimestamp = ''2025-01-01 00:00:02'',
           duration = 2, formattedDuration = ''2s'',
           logFile = None,
           error = Some ''Repository code directory does not exist: /t/002/repo''\<rparr>,
      \<lparr>claudePath = Some ''/usr/local/bin/claude'', ticks = 4,
       trace = [Processing ''002'']\<rparr>)"
  by code_simp

lemma demo_run_003:
  "runTask demo_world ''/t/003/task.md'' ''/t/003/execution.log'' fresh =
     (Inr \<lparr>success = False, taskName = ''003'',
           startTimestamp = ''2025-01-01 00:00:00'', endTimestamp = ''2025-01-01 00:00:02'',
           duration = 2, formattedDuration = ''2s'',
           logFile = Some ''/t/003/execution.log'', error = None\<rparr>,
      \<lparr>claudePath = Some ''/usr/local/bin/claude'', ticks = 4,
       trace = [Processing ''003'',
                SpawnAgent ''/t/003/repo'' (task_md ''/t/003'') ''/usr/local/bin/claude''
                  ''/t/003/execution.log'']\<rparr>)"
  by code_simp

lemma no_agent_detect:
  "detectClaudePath no_agent_world fresh =
     (Inr ''claude'', \<lparr>claudePath = None, ticks = 0, trace = [SpawnWhich]\<rparr>)"
  by code_simp

lemma no_agent_run_001:
  "runTask no_agent_world ''/t/001/task.md'' ''/t/001/execution.log'' fresh =
     (Inr \<lparr>success = False, taskName = ''001'',
           startTimestamp = ''2025-01-01 00:00:00'', endTimestamp = ''2025-01-01 00:00:02'',
           duration = 2, formattedDuration = ''2s'',
           logFile = Some ''/t/001/execution.log'', error = None\<rparr>,
      \<lparr>claudePath = Some ''claude'', ticks = 4,
       trace = [Processing ''001'', SpawnWhich,
                SpawnAgent ''/t/001/repo'' (task_md ''/t/001'') ''claude''
                  ''/t/001/execution.log'']\<rparr>)"
  by code_simp

lemma no_agent_extract_002:
  "fst (extractRepoPaths no_agent_world ''/t/002/task.md'' fresh) =
     Inr (''/t/002'', ''/t/002/repo'')"
  by code_simp

lemma no_agent_run_002:
  "runTask no_agent_world ''/t/002/task.md'' ''/t/002/execution.log'' fresh =
     (Inr \<lparr>success = False, taskName = ''002'',
           startTimestamp = ''2025-01-01 00:00:00'', endTimestamp = ''2025-01-01 00:00:02'',
           duration = 2, formattedDuration = ''2s'',
           logFile = None,
           error = Some ''Repository code directory does not exist: /t/002/repo''\<rparr>,
      \<lparr>claudePath = Some ''claude'', ticks = 4,
       trace = [Processing ''002'', SpawnWhich]\<rparr>)"
  by code_simp

text \<open>
  Claim C3, as stated, fails in its first part: a unit whose repository code directory
  does not exist can still have an external process spawned for it. The path of the agent
  is resolved at the top of the \<open>try\<close> block, before the task file is read and the
  directory is checked, and on a machine where none of the candidate files exists the
  resolution runs the shell with \<^verbatim>\<open>which claude\<close>. Unit 002 of the machine without
  the agent has no repository code directory; entered with an empty cache, \<open>runTask\<close>
  spawns that shell and then returns the failed Outcome.
\<close>

theorem runTask_spawns_lookup_before_directory_check:
  "fst (extractRepoPaths no_agent_world ''/t/002/task.md'' fresh) =
     Inr (''/t/002'', ''/t/002/repo'')
   \<and> pathExists no_agent_world ''/t/002/repo'' = Inr False
   \<and> runTask no_agent_world ''/t/002/task.md'' ''/t/002/execution.log'' fresh =
     (Inr \<lparr>success = False, taskName = ''002'',
           startTimestamp = ''2025-01-01 00:00:00'', endTimestamp = ''2025-01-01 00:00:02'',
           duration = 2, formattedDuration = ''2s'',
           logFile = None,
           error = Some ''Repository code directory does not exist: /t/002/repo''\<rparr>,
      \<lparr>claudePath = Some ''claude'', ticks = 4,
       trace = [Processing ''002'', SpawnWhich]\<rparr>)"
proof -
  have "pathExists no_agent_world ''/t/002/repo'' = Inr False"
    by (simp add: no_agent_world_def)
  then show ?thesis
    by (simp add: no_agent_extract_002 no_agent_run_002)
qed

text \<open>
  Claim C3, amended. \<open>runTask\<close> returns an Outcome, and:
  if the repository code directory named in the task file does not exist, the agent
  command is not spawned, and the Outcome has \<open>success = False\<close> and the error detail
  "Repository code directory does not exist: ..."; if the agent command was spawned and
  exits with status 0, the Outcome has \<open>success = True\<close> and no error detail; if it
  exits with another status, the Outcome has \<open>success = False\<close>, no error detail, and
  the log file path it was given. With a missing directory, what \<open>runTask\<close> records is
  its entry and nothing else, but for the shell lookup \<^verbatim>\<open>which claude\<close>, which
  comes before the directory is checked and is spawned exactly when the cache holds no
  path of the agent and none of the candidate files exists.
\<close>

theorem runTask_outcome_by_cause:
  "\<exists>r s'. runTask w taskFile logFile' s = (Inr r, s')
     \<and> (\<forall>td rc. fst (extractRepoPaths w taskFile s) = Inr (td, rc)
            \<and> pathExists w rc = Inr False \<longrightarrow>
          agent_spawns (new_events s s') = []
          \<and> new_events s s' =
              Processing (unit_name w taskFile) #
              (if (claudePath s = None \<or> claudePath s = Some [])
                   \<and> first_existing w (candidate_paths w) = None
               then [SpawnWhich] else [])
          \<and> \<not> success r
          \<and> error r = Some (''Repository code directory does not exist: '' @ rc))
     \<and> (\<forall>cwd content claude log.
          SpawnAgent cwd content claude log \<in> set (new_events s s') \<longrightarrow>
            (shell_exit w cwd content claude log = 0 \<longrightarrow> success r \<and> error r = None)
          \<and> (shell_exit w cwd content claude log \<noteq> 0 \<longrightarrow>
                \<not> success r \<and> error r = None \<and> logFile r = Some logFile'))"
proof (cases rule: runTask_cases [where w=w and tf=taskFile and lf=logFile' and s=s])
  case (raised r s' pre msg)
  have ev: "new_events s s' = [Processing (unit_name w taskFile)] @ pre"
    using raised(4) by (rule new_events_append)
  have nospawn: "agent_spawns (new_events s s') = []"
    and nomem: "\<And>cwd content claude log.
      SpawnAgent cwd content claude log \<notin> set (new_events s s')"
    using raised(2) ev by auto
  have only: "new_events s s' =
              Processing (unit_name w taskFile) #
              (if (claudePath s = None \<or> claudePath s = Some [])
                   \<and> first_existing w (candidate_paths w) = None
               then [SpawnWhich] else [])"
    using raised(7) ev by simp
  have msg: "\<And>td rc. fst (extractRepoPaths w taskFile s) = Inr (td, rc)
      \<Longrightarrow> pathExists w rc = Inr False
      \<Longrightarrow> msg = ''Repository code directory does not exist: '' @ rc"
    using raised(6) by auto
  show ?thesis
    apply (rule exI [of _ r], rule exI [of _ s'])
    apply (insert raised(1,5) nospawn nomem only msg)
    apply simp
    done
next
  case (spawned r s' pre td cwd content cp)
  have ev: "new_events s s' = [Processing (unit_name w taskFile)] @ pre @
                    [SpawnAgent cwd content cp (resolve w logFile')]"
    using spawned(8) by (rule new_events_append)
  have mem: "\<And>cwd' content' claude log.
      SpawnAgent cwd' content' claude log \<in> set (new_events s s')
      \<Longrightarrow> cwd' = cwd \<and> content' = content \<and> claude = cp \<and> log = resolve w logFile'"
    using spawned(2) ev by auto
  have dir: "\<And>td' rc. fst (extractRepoPaths w taskFile s) = Inr (td', rc)
      \<Longrightarrow> pathExists w rc \<noteq> Inr False"
    using spawned(4,5) by auto
  show ?thesis
    apply (rule exI [of _ r], rule exI [of _ s'])
    apply (insert spawned(1,10) mem dir)
    apply auto
    done
qed

theorem runTask_outcome_by_cause_witness:
  "fst (extractRepoPaths demo_world ''/t/002/task.md'' fresh) = Inr (''/t/002'', ''/t/002/repo'')
   \<and> pathExists demo_world ''/t/002/repo'' = Inr False
   \<and> (\<exists>r s'. runTask demo_world ''/t/002/task.md'' ''/t/002/execution.log'' fresh = (Inr r, s')
         \<and> agent_spawns (new_events fresh s') = [] \<and> new_events fresh s' = [Processing ''002'']
         \<and> \<not> success r
         \<and> error r = Some ''Repository code directory does not exist: /t/002/repo'')
   \<and> (\<exists>r s'. runTask demo_world ''/t/001/task.md'' ''/t/001/execution.log'' fresh = (Inr r, s')
         \<and> SpawnAgent ''/t/001/repo'' (task_md ''/t/001'') ''/usr/local/bin/claude''
              ''/t/001/execution.log'' \<in> set (new_events fresh s')
         \<and> shell_exit demo_world ''/t/001/repo'' (task_md ''/t/001'') ''/usr/local/bin/claude''
              ''/t/001/execution.log'' = 0
         \<and> success r \<and> error r = None)
   \<and> (\<exists>r s'. runTask demo_world ''/t/003/task.md'' ''/t/003/execution.log'' fresh = (Inr r, s')
         \<and> SpawnAgent ''/t/003/repo'' (task_md ''/t/003'') ''/usr/local/bin/claude''
              ''/t/003/execution.log'' \<in> set (new_events fresh s')
         \<and> shell_exit demo_world ''/t/003/repo'' (task_md ''/t/003'') ''/usr/local/bin/claude''
              ''/t/003/execution.log'' \<noteq> 0
         \<and> \<not> success r \<and> error r = None \<and> logFile r = Some ''/t/003/execution.log'')"
proof -
  have px: "pathExists demo_world ''/t/002/repo'' = Inr False"
    by (simp add: demo_world_def)
  have x1: "shell_exit demo_world ''/t/001/repo'' (task_md ''/t/001'') ''/usr/local/bin/claude''
              ''/t/001/execution.log'' = 0"
    by (simp add: demo_world_def)
  have x3: "shell_exit demo_world ''/t/003/repo'' (task_md ''/t/003'') ''/usr/local/bin/claude''
              ''/t/003/execution.log'' \<noteq> 0"
    by (simp add: demo_world_def)
  have cand: "first_existing demo_world (candidate_paths demo_world) \<noteq> None"
    by code_simp
  have unit_002: "unit_name demo_world ''/t/002/task.md'' = ''002''"
    by code_simp
  have two: "\<exists>r s'. runTask demo_world ''/t/002/task.md'' ''/t/002/execution.log'' fresh = (Inr r, s')
         \<and> agent_spawns (new_events fresh s') = [] \<and> new_events fresh s' = [Processing ''002'']
         \<and> \<not> success r
         \<and> error r = Some ''Repository code directory does not exist: /t/002/repo''"
    using runTask_outcome_by_cause
      [of demo_world "''/t/002/task.md''" "''/t/002/execution.log''" fresh]
      demo_extract_002 px cand unit_002
    by fastforce
  have one: "\<exists>r s'. runTask demo_world ''/t/001/task.md'' ''/t/001/execution.log'' fresh = (Inr r, s')
         \<and> SpawnAgent ''/t/001/repo'' (task_md ''/t/001'') ''/usr/local/bin/claude''
              ''/t/001/execution.log'' \<in> set (new_events fresh s')
         \<and> success r \<and> error r = None"
    using runTask_outcome_by_cause
      [of demo_world "''/t/001/task.md''" "''/t/001/execution.log''" fresh]
      demo_run_001 x1
    by (auto simp: new_events_def fresh_def)
  have three: "\<exists>r s'. runTask demo_world ''/t/003/task.md'' ''/t/003/execution.log'' fresh = (Inr r, s')
         \<and> SpawnAgent ''/t/003/repo'' (task_md ''/t/003'') ''/usr/local/bin/claude''
              ''/t/003/execution.log'' \<in> set (new_events fresh s')
         \<and> \<not> success r \<and> error r = None \<and> logFile r = Some ''/t/003/execution.log''"
    using runTask_outcome_by_cause
      [of demo_world "''/t/003/task.md''" "''/t/003/execution.log''" fresh]
      demo_run_003 x3
    by (auto simp: new_events_def fresh_def)
  show ?thesis
    using demo_extract_002 px x1 x3 one two three by simp
qed

text \<open>
  Claim C8, as stated, fails: the Outcome built by the outer \<open>catch\<close> handler has no
  \<open>logFile\<close>. Unit 002 of the demonstration world has no repository code directory,
  and its Outcome carries an error detail and no log file path.
\<close>

theorem runTask_precondition_failure_has_no_logFile:
  "fst (runTask demo_world ''/t/002/task.md'' ''/t/002/execution.log'' fresh) =
     Inr \<lparr>success = False, taskName = ''002'',
          startTimestamp = ''2025-01-01 00:00:00'', endTimestamp = ''2025-01-01 00:00:02'',
          duration = 2, formattedDuration = ''2s'',
          logFile = None,
          error = Some ''Repository code directory does not exist: /t/002/repo''\<rparr>"
  by (simp add: demo_run_002)

text \<open>
  Claim C8, amended. Every Outcome of \<open>runTask\<close> has the identifier of the unit, a
  success flag, the start and end timestamps and the duration in seconds between the
  two readings of the clock (with its formatted text). It has the log file path and no
  error detail when the agent command was run (success, or failure by exit status); it
  has an error detail and no log file path, and \<open>success = False\<close>, when the \<open>try\<close>
  block raised before the command.
\<close>

theorem runTask_outcome_fields:
  "\<exists>r s'. runTask w taskFile logFile' s = (Inr r, s')
     \<and> taskName r = unit_name w taskFile
     \<and> startTimestamp r = timestamp_text w (clock w (ticks s))
     \<and> endTimestamp r = timestamp_text w (clock w (ticks s + 2))
     \<and> duration r = calculateDuration (clock w (ticks s + 1)) (clock w (ticks s + 3))
     \<and> formattedDuration r = formatDuration (duration r)
     \<and> ((logFile r = Some logFile' \<and> error r = None
           \<and> length (agent_spawns (new_events s s')) = 1)
        \<or> (logFile r = None \<and> (\<exists>msg. error r = Some msg) \<and> success r = False
           \<and> agent_spawns (new_events s s') = []))"
proof (cases rule: runTask_cases [where w=w and tf=taskFile and lf=logFile' and s=s])
  case (raised r s' pre msg)
  have "new_events s s' = [Processing (unit_name w taskFile)] @ pre"
    using raised(4) by (rule new_events_append)
  then have "agent_spawns (new_events s s') = []"
    using raised(2) by auto
  then show ?thesis
    apply (intro exI [of _ r] exI [of _ s'])
    apply (insert raised(1,5))
    apply (simp add: numeral_2_eq_2 numeral_3_eq_3)
    done
next
  case (spawned r s' pre td cwd content cp)
  have "new_events s s' = [Processing (unit_name w taskFile)] @ pre @
                    [SpawnAgent cwd content cp (resolve w logFile')]"
    using spawned(8) by (rule new_events_append)
  then have "length (agent_spawns (new_events s s')) = 1"
    using spawned(2) by auto
  then show ?thesis
    apply (intro exI [of _ r] exI [of _ s'])
    apply (insert spawned(1,10))
    apply (simp add: numeral_2_eq_2 numeral_3_eq_3)
    done
qed

theorem runTask_outcome_fields_witness:
  "\<exists>r s'. runTask demo_world ''/t/003/task.md'' ''/t/003/execution.log'' fresh = (Inr r, s')
     \<and> taskName r = ''003''
     \<and> startTimestamp r = ''2025-01-01 00:00:00''
     \<and> endTimestamp r = ''2025-01-01 00:00:02''
     \<and> duration r = 2
     \<and> logFile r = Some ''/t/003/execution.log'' \<and> error r = None"
  using runTask_outcome_fields
    [of demo_world "''/t/003/task.md''" "''/t/003/execution.log''" fresh]
  by (simp add: demo_run_003)

text \<open>
  Claim C10, as stated, fails in its conclusion. On a machine without the agent, the
  resolution falls back to \<^verbatim>\<open>claude\<close>, the command line of unit 001 ends with status
  127, and the unit's Outcome is a failure; with the agent installed, everything else
  equal, the same unit succeeds.
\<close>

theorem runTask_fails_when_agent_is_missing:
  "fst (detectClaudePath no_agent_world fresh) = Inr ''claude''
   \<and> shell_exit no_agent_world ''/t/001/repo'' (task_md ''/t/001'') ''claude''
        ''/t/001/execution.log'' = 127
   \<and> fst (runTask no_agent_world ''/t/001/task.md'' ''/t/001/execution.log'' fresh) =
       Inr \<lparr>success = False, taskName = ''001'',
            startTimestamp = ''2025-01-01 00:00:00'', endTimestamp = ''2025-01-01 00:00:02'',
            duration = 2, formattedDuration = ''2s'',
            logFile = Some ''/t/001/execution.log'', error = None\<rparr>
   \<and> fst (runTask demo_world ''/t/001/task.md'' ''/t/001/execution.log'' fresh) =
       Inr \<lparr>success = True, taskName = ''001'',
            startTimestamp = ''2025-01-01 00:00:00'', endTimestamp = ''2025-01-01 00:00:02'',
            duration = 2, formattedDuration = ''2s'',
            logFile = Some ''/t/001/execution.log'', error = None\<rparr>"
proof -
  have "shell_exit no_agent_world ''/t/001/repo'' (task_md ''/t/001'') ''claude''
        ''/t/001/execution.log'' = 127"
    by (simp add: no_agent_world_def)
  then show ?thesis
    by (simp add: no_agent_detect no_agent_run_001 demo_run_001)
qed

text \<open>
  Claim C10, amended. \<open>detectClaudePath\<close> never raises and always returns a non-empty
  path; when no candidate file exists and the shell lookup fails, the path is the literal
  \<^verbatim>\<open>claude\<close>. So no Outcome carries an error detail from the resolution: an error
  detail is always raised by reading the task file, extracting its paths, the repository
  code directory or the log directory; in every other case the agent command is run
  once, with a non-empty path, which is the cached one or, when the cache holds none,
  the one \<open>detectClaudePath\<close> returns, and the Outcome has no error detail and is a
  success exactly when that command exits with status 0.
\<close>

theorem detectClaudePath_never_raises:
  "(\<exists>p s'. detectClaudePath w s = (Inr p, s') \<and> p \<noteq> [])
   \<and> (first_existing w (candidate_paths w) = None \<and> isl (which_claude w) \<longrightarrow>
        fst (detectClaudePath w s) = Inr ''claude'')
   \<and> (\<exists>r s'. runTask w taskFile logFile' s = (Inr r, s')
        \<and> ((\<exists>msg. error r = Some msg
              \<and> (fst (extractRepoPaths w taskFile s) = Inl msg
                  \<or> (\<exists>td rc. fst (extractRepoPaths w taskFile s) = Inr (td, rc)
                       \<and> (pathExists w rc = Inl msg
                          \<or> (pathExists w rc = Inr False
                              \<and> msg = ''Repository code directory does not exist: '' @ rc)
                          \<or> (pathExists w rc = Inr True
                              \<and> (readFile w taskFile = Inl msg
                                  \<or> ensureDir w (dirname w logFile') = Some msg))))))
           \<or> (\<exists>cwd content claude. claude \<noteq> []
                \<and> (claudePath s = Some claude
                    \<or> ((claudePath s = None \<or> claudePath s = Some [])
                        \<and> fst (detectClaudePath w s) = Inr claude))
                \<and> agent_spawns (new_events s s') =
                    [SpawnAgent cwd content claude (resolve w logFile')]
                \<and> error r = None
                \<and> success r = (shell_exit w cwd content claude (resolve w logFile') = 0))))"
proof (intro conjI impI)
  show "\<exists>p s'. detectClaudePath w s = (Inr p, s') \<and> p \<noteq> []"
    using detectClaudePath_effect [of w s] by blast
next
  assume "first_existing w (candidate_paths w) = None \<and> isl (which_claude w)"
  then show "fst (detectClaudePath w s) = Inr ''claude''"
    by (auto simp: detectClaudePath_def bind_io_def catch_io_def emit_def await_io_def
        return_io_def split: sum.splits)
next
  show "\<exists>r s'. runTask w taskFile logFile' s = (Inr r, s')
        \<and> ((\<exists>msg. error r = Some msg
              \<and> (fst (extractRepoPaths w taskFile s) = Inl msg
                  \<or> (\<exists>td rc. fst (extractRepoPaths w taskFile s) = Inr (td, rc)
                       \<and> (pathExists w rc = Inl msg
                          \<or> (pathExists w rc = Inr False
                              \<and> msg = ''Repository code directory does not exist: '' @ rc)
                          \<or> (pathExists w rc = Inr True
                              \<and> (readFile w taskFile = Inl msg
                                  \<or> ensureDir w (dirname w logFile') = Some msg))))))
           \<or> (\<exists>cwd content claude. claude \<noteq> []
                \<and> (claudePath s = Some claude
                    \<or> ((claudePath s = None \<or> claudePath s = Some [])
                        \<and> fst (detectClaudePath w s) = Inr claude))
                \<and> agent_spawns (new_events s s') =
                    [SpawnAgent cwd content claude (resolve w logFile')]
                \<and> error r = None
                \<and> success r = (shell_exit w cwd content claude (resolve w logFile') = 0)))"
  proof (cases rule: runTask_cases [where w=w and tf=taskFile and lf=logFile' and s=s])
    case (raised r s' pre msg)
    show ?thesis
      apply (rule exI [of _ r], rule exI [of _ s'], rule conjI, rule raised(1))
      apply (rule disjI1, rule exI [of _ msg])
      apply (insert raised(5,6))
      apply simp
      done
  next
    case (spawned r s' pre td cwd content cp)
    have "new_events s s' = [Processing (unit_name w taskFile)] @ pre @
                    [SpawnAgent cwd content cp (resolve w logFile')]"
      using spawned(8) by (rule new_events_append)
    then have sp: "agent_spawns (new_events s s') =
        [SpawnAgent cwd content cp (resolve w logFile')]"
      using spawned(2) by auto
    show ?thesis
      apply (rule exI [of _ r], rule exI [of _ s'], rule conjI, rule spawned(1))
      apply (rule disjI2, rule exI [of _ cwd], rule exI [of _ content], rule exI [of _ cp])
      apply (insert spawned(3,10,12) sp)
      apply simp
      done
  qed
qed

theorem detectClaudePath_never_raises_witness:
  "first_existing no_agent_world (candidate_paths no_agent_world) = None
   \<and> isl (which_claude no_agent_world)
   \<and> fst (detectClaudePath no_agent_world fresh) = Inr ''claude''"
proof -
  have a: "first_existing no_agent_world (candidate_paths no_agent_world) = None"
    by code_simp
  have b: "isl (which_claude no_agent_world)"
    by (simp add: no_agent_world_def demo_world_def)
  show ?thesis
    using detectClaudePath_never_raises [of no_agent_world fresh] a b by simp
qed

section \<open>The scheduler\<close>

subsection \<open>Lists and traces\<close>

lemma drop_enumerate_Cons:
  assumes "drop k (enumerate 0 xs) = (i, x) # rest"
  shows "k < length xs \<and> i = k \<and> x = xs ! k \<and> rest = drop (Suc k) (enumerate 0 xs)"
proof -
  have k: "k < length (enumerate 0 xs)"
    using assms by (cases "k < length (enumerate 0 xs)") auto
  then have "enumerate 0 xs ! k # drop (Suc k) (enumerate 0 xs) = (i, x) # rest"
    using assms by (simp add: Cons_nth_drop_Suc)
  then show ?thesis
    using k by (auto simp: nth_enumerate_eq)
qed

lemma settled_update_count:
  "i < length ps \<Longrightarrow> ps ! i = None \<Longrightarrow>
     length (filter P (settled (ps[i := Some r]))) =
       length (filter P (settled ps)) + (if P r then 1 else 0)"
proof (induction ps arbitrary: i)
  case Nil
  then show ?case by simp
next
  case (Cons a ps)
  then show ?case
    by (cases i; cases a) auto
qed

lemma settled_all:
  "\<forall>i < length ps. ps ! i \<noteq> None \<Longrightarrow> map Some (settled ps) = ps"
proof (induction ps)
  case Nil
  then show ?case by simp
next
  case (Cons a ps)
  have "\<forall>i < length ps. ps ! i \<noteq> None"
    using Cons.prems by auto
  moreover have "a \<noteq> None"
    using Cons.prems by auto
  ultimately show ?case
    using Cons.IH by (cases a) auto
qed

lemma remove_nth_fst_image:
  assumes "distinct (map fst xs)" and "k < length xs"
  shows "fst ` set (take k xs @ drop (Suc k) xs) = fst ` set xs - {fst (xs ! k)}"
proof -
  have xs: "xs = take k xs @ xs ! k # drop (Suc k) xs"
    using assms(2) by (rule id_take_nth_drop)
  have "distinct (map fst (take k xs @ xs ! k # drop (Suc k) xs))"
    using assms(1) xs by simp
  then have "fst (xs ! k) \<notin> fst ` set (take k xs @ drop (Suc k) xs)"
    by auto
  moreover have "fst ` set xs = insert (fst (xs ! k)) (fst ` set (take k xs @ drop (Suc k) xs))"
    by (subst xs) auto
  ultimately show ?thesis by auto
qed

lemma remove_nth_distinct:
  assumes "distinct (map fst xs)"
  shows "distinct (map fst (take k xs @ drop (Suc k) xs))"
proof (cases "k < length xs")
  case True
  then have xs: "xs = take k xs @ xs ! k # drop (Suc k) xs"
    by (rule id_take_nth_drop)
  have "distinct (map fst (take k xs @ xs ! k # drop (Suc k) xs))"
    using assms xs by simp
  then show ?thesis by auto
next
  case False
  then show ?thesis using assms by simp
qed

lemma remove_nth_subset: "set (take k xs @ drop (Suc k) xs) \<subseteq> set xs"
  by (auto dest: in_set_takeD in_set_dropD)

lemma remove_nth_length:
  "k < length xs \<Longrightarrow> length (take k xs @ drop (Suc k) xs) = length xs - 1"
  by auto

lemma started_append: "started (xs @ ys) = started xs + started ys"
  by (induction xs rule: started.induct) auto

lemma completed_append: "completed (xs @ ys) = completed xs + completed ys"
  by (induction xs rule: completed.induct) auto

lemma schedule_append: "schedule (xs @ ys) = schedule xs @ schedule ys"
  by (induction xs rule: schedule.induct) auto

lemma started_take_le: "started (take n evs) \<le> started evs"
proof (induction evs arbitrary: n)
  case Nil
  show ?case by simp
next
  case (Cons e evs)
  show ?case
  proof (cases n)
    case 0
    then show ?thesis by simp
  next
    case (Suc k)
    then show ?thesis
      using Cons [of k] by (cases e) auto
  qed
qed

subsection \<open>The steps of the pool\<close>

declare run_pool.simps [simp del]

lemma run_pool_start:
  assumes "queue p = (i, tf) # rest" and "length (running p) < m"
  shows "run_pool w m picks p s =
           run_pool w m picks (start_pool w p s i tf) (start_state w s i tf)"
  using assms
  by (subst run_pool.simps)
    (simp add: Let_def bind_io_def emit_def runTask_begin_effect start_pool_def
      start_state_def unit_log_def unit_name_def)

lemma run_pool_finish:
  assumes "\<not> (queue p \<noteq> [] \<and> length (running p) < m)" and "running p \<noteq> []"
    and "running p ! pick_next picks (length (running p)) = (i, tf, lf, ctx)"
    and "runTask_rest w tf lf ctx s = (Inr r, s')"
  shows "run_pool w m picks p s =
           run_pool w m (tl picks)
             (finish_pool p (pick_next picks (length (running p))) i r) (finish_state s' i r)"
  using assms
  by (subst run_pool.simps) (auto simp: Let_def finish_pool_def finish_state_def)

lemma run_pool_done:
  assumes "\<not> (queue p \<noteq> [] \<and> length (running p) < m)" and "running p = []"
  shows "run_pool w m picks p s = (Inr p, s)"
  using assms by (subst run_pool.simps) auto

lemma pick_next_less: "0 < n \<Longrightarrow> pick_next picks n < n"
  by (simp add: pick_next_def split: list.splits)

text \<open>
  The pool always runs to its end, and a property that holds at the start and is kept
  by both steps holds at the end.
\<close>

lemma run_pool_invariant:
  assumes "I p s"
    and "\<And>p s i tf rest. I p s \<Longrightarrow> queue p = (i, tf) # rest \<Longrightarrow> length (running p) < m
           \<Longrightarrow> I (start_pool w p s i tf) (start_state w s i tf)"
    and "\<And>p s k i tf lf ctx r s'. I p s \<Longrightarrow> k < length (running p)
           \<Longrightarrow> running p ! k = (i, tf, lf, ctx)
           \<Longrightarrow> runTask_rest w tf lf ctx s = (Inr r, s')
           \<Longrightarrow> I (finish_pool p k i r) (finish_state s' i r)"
  shows "\<exists>p' s'. run_pool w m picks p s = (Inr p', s') \<and> I p' s' \<and> running p' = []
           \<and> (queue p' = [] \<or> m = 0)"
  using assms
proof (induction w m picks p s rule: run_pool.induct)
  case (1 w m picks p s)
  show ?case
  proof (cases "queue p \<noteq> [] \<and> length (running p) < m")
    case True
    then obtain i tf rest where q: "queue p = (i, tf) # rest"
      by (cases "queue p") auto
    have I': "I (start_pool w p s i tf) (start_state w s i tf)"
      using "1.prems"(2) [OF "1.prems"(1) q] True by simp
    have b: "bind_io (emit (TaskStarting i (basename w (dirname w tf))))
               (\<lambda>_. runTask_begin w tf) s =
             (Inr (unit_name w tf, timestamp_text w (clock w (ticks s)), clock w (Suc (ticks s))),
              start_state w s i tf)"
      by (simp add: bind_io_def emit_def runTask_begin_effect start_state_def unit_name_def)
    have p': "p\<lparr>queue := rest,
                 running := running p @
                   [(i, tf, join w (dirname w tf) ''execution.log'', unit_name w tf,
                     timestamp_text w (clock w (ticks s)), clock w (Suc (ticks s)))]\<rparr>
              = start_pool w p s i tf"
      using q by (simp add: start_pool_def unit_log_def)
    have "\<exists>p' s'. run_pool w m picks (start_pool w p s i tf) (start_state w s i tf) = (Inr p', s')
            \<and> I p' s' \<and> running p' = [] \<and> (queue p' = [] \<or> m = 0)"
      apply (rule "1.IH"(1) [OF True q refl refl refl refl b [symmetric] refl, unfolded p'])
        apply (rule I')
       apply (erule (2) "1.prems"(2))
      apply (erule (3) "1.prems"(3))
      done
    then show ?thesis
      using run_pool_start [of p i tf rest m w picks s] q True by simp
  next
    case False
    show ?thesis
    proof (cases "running p = []")
      case True
      then have "run_pool w m picks p s = (Inr p, s)"
        using False by (rule run_pool_done [rotated])
      then show ?thesis
        using "1.prems"(1) True False by auto
    next
      case ne: False
      let ?k = "pick_next picks (length (running p))"
      have k: "?k < length (running p)"
        using ne by (simp add: pick_next_less)
      obtain i tf lf ctx where e: "running p ! ?k = (i, tf, lf, ctx)"
        by (cases "running p ! ?k") auto
      obtain r s' where r: "runTask_rest w tf lf ctx s = (Inr r, s')"
        using runTask_rest_total by blast
      have I': "I (finish_pool p ?k i r) (finish_state s' i r)"
        using "1.prems"(3) [OF "1.prems"(1) k e r] .
      have fp: "p\<lparr>running := take ?k (running p) @ drop (Suc ?k) (running p),
                    promises := (promises p)[i := Some r],
                    successful := if success r then successful p + 1 else successful p,
                    failed := if success r then failed p else failed p + 1\<rparr>
                = finish_pool p ?k i r"
        by (simp add: finish_pool_def)
      have fs: "s'\<lparr>trace := trace s' @ [TaskSettled i (success r)]\<rparr> = finish_state s' i r"
        by (simp add: finish_state_def)
      have "\<exists>p' s''. run_pool w m (tl picks) (finish_pool p ?k i r) (finish_state s' i r)
              = (Inr p', s'')
            \<and> I p' s'' \<and> running p' = [] \<and> (queue p' = [] \<or> m = 0)"
        apply (rule "1.IH"(2) [OF False ne refl e [symmetric] refl refl r [symmetric] refl,
              unfolded fp fs])
          apply (rule I')
         apply (erule (2) "1.prems"(2))
        apply (erule (3) "1.prems"(3))
        done
      then show ?thesis
        using run_pool_finish [OF False ne e r] by simp
    qed
  qed
qed

subsection \<open>The invariants are kept\<close>

lemma pool_shape_start:
  assumes sh: "pool_shape w tfs p" and q: "queue p = (i, tf) # rest"
  shows "pool_shape w tfs (start_pool w p s i tf)"
    and "i = nstarted tfs p" and "tf = tfs ! i" and "i < length tfs"
    and "nstarted tfs (start_pool w p s i tf) = Suc (nstarted tfs p)"
proof -
  let ?k = "nstarted tfs p"
  let ?p' = "start_pool w p s i tf"
  have d: "drop ?k (enumerate 0 tfs) = (i, tf) # rest"
    using sh q by (simp add: pool_shape_def)
  have k: "?k < length tfs" and i: "i = ?k" and tf: "tf = tfs ! ?k"
    and rest: "rest = drop (Suc ?k) (enumerate 0 tfs)"
    using drop_enumerate_Cons [OF d] by auto
  have lr: "length rest = length tfs - Suc ?k"
    using rest by simp
  have q': "queue ?p' = rest"
    using q by (simp add: start_pool_def)
  have n': "nstarted tfs ?p' = Suc ?k"
    using k lr q' by (simp add: nstarted_def)
  have r': "running ?p' = running p @
         [(i, tf, unit_log w tf, unit_name w tf, timestamp_text w (clock w (ticks s)),
           clock w (Suc (ticks s)))]"
    by (simp add: start_pool_def)
  have pr': "promises ?p' = promises p"
    by (simp add: start_pool_def)
  have old: "\<forall>(j, tf, lf, name, ts, t0) \<in> set (running p).
            j < ?k \<and> tf = tfs ! j \<and> lf = unit_log w tf \<and> name = unit_name w tf"
    using sh by (simp add: pool_shape_def)
  then have lt: "\<forall>e \<in> set (running p). fst e < ?k"
    by auto
  have c1: "length (queue ?p') \<le> length tfs"
    using q' lr by simp
  have c2: "queue ?p' = drop (nstarted tfs ?p') (enumerate 0 tfs)"
    using q' n' rest by simp
  have c3: "length (promises ?p') = length tfs"
    using sh pr' by (simp add: pool_shape_def)
  have dist: "distinct (map fst (running p))"
    using sh by (simp add: pool_shape_def)
  have "i \<notin> fst ` set (running p)"
    using lt i by auto
  then have c4: "distinct (map fst (running ?p'))"
    unfolding r' using dist by simp
  have c5: "\<forall>(j, tf, lf, name, ts, t0) \<in> set (running ?p').
            j < nstarted tfs ?p' \<and> tf = tfs ! j \<and> lf = unit_log w tf \<and> name = unit_name w tf"
    unfolding r' n' using old i tf by auto
  have oldp: "\<forall>j < length tfs.
            (promises p ! j = None) = (?k \<le> j \<or> j \<in> fst ` set (running p))"
    using sh by (simp add: pool_shape_def)
  have c6: "\<forall>j < length tfs.
            (promises ?p' ! j = None) = (nstarted tfs ?p' \<le> j \<or> j \<in> fst ` set (running ?p'))"
  proof (intro allI impI)
    fix j assume "j < length tfs"
    then have "(promises p ! j = None) = (?k \<le> j \<or> j \<in> fst ` set (running p))"
      using oldp by simp
    moreover have "(?k \<le> j) = (Suc ?k \<le> j \<or> j = i)"
      using i by auto
    ultimately show "(promises ?p' ! j = None) =
        (nstarted tfs ?p' \<le> j \<or> j \<in> fst ` set (running ?p'))"
      by (auto simp: pr' n' r')
  qed
  have c7: "\<forall>j < length tfs. \<forall>r. promises ?p' ! j = Some r \<longrightarrow>
            taskName r = unit_name w (tfs ! j)
            \<and> (logFile r = None \<or> logFile r = Some (unit_log w (tfs ! j)))"
    using sh by (simp add: pool_shape_def pr')
  show "pool_shape w tfs ?p'"
    unfolding pool_shape_def by (intro conjI c1 c2 c3 c4 c5 c6 c7)
  show "i = ?k" by (rule i)
  show "tf = tfs ! i" using tf i by simp
  show "i < length tfs" using k i by simp
  show "nstarted tfs ?p' = Suc ?k" by (rule n')
qed

lemma pool_shape_finish:
  assumes sh: "pool_shape w tfs p" and k: "k < length (running p)"
    and e: "running p ! k = (i, tf, lf, name, ts, t0)"
    and r: "taskName r = name" "logFile r = None \<or> logFile r = Some lf"
  shows "pool_shape w tfs (finish_pool p k i r)"
    and "nstarted tfs (finish_pool p k i r) = nstarted tfs p"
    and "i < length tfs" and "promises p ! i = None" and "i < nstarted tfs p"
proof -
  let ?n = "nstarted tfs p"
  let ?p' = "finish_pool p k i r"
  have q': "queue ?p' = queue p"
    and r': "running ?p' = take k (running p) @ drop (Suc k) (running p)"
    and pr': "promises ?p' = (promises p)[i := Some r]"
    by (simp_all add: finish_pool_def)
  have n': "nstarted tfs ?p' = ?n"
    by (simp add: nstarted_def q')
  have mem: "(i, tf, lf, name, ts, t0) \<in> set (running p)"
    using k e by (metis nth_mem)
  have old: "\<forall>(j, tf, lf, name, ts, t0) \<in> set (running p).
            j < ?n \<and> tf = tfs ! j \<and> lf = unit_log w tf \<and> name = unit_name w tf"
    using sh by (simp add: pool_shape_def)
  then have ei: "i < ?n" "tf = tfs ! i" "lf = unit_log w tf" "name = unit_name w tf"
    using mem by auto
  have nle: "?n \<le> length tfs"
    by (simp add: nstarted_def)
  have iN: "i < length tfs"
    using ei(1) nle by simp
  have oldp: "\<forall>j < length tfs.
            (promises p ! j = None) = (?n \<le> j \<or> j \<in> fst ` set (running p))"
    using sh by (simp add: pool_shape_def)
  have "i \<in> fst ` set (running p)"
    using mem by force
  then have none: "promises p ! i = None"
    using oldp iN by simp
  have lp: "length (promises p) = length tfs"
    using sh by (simp add: pool_shape_def)
  have dist: "distinct (map fst (running p))"
    using sh by (simp add: pool_shape_def)
  have img: "fst ` set (running ?p') = fst ` set (running p) - {i}"
    using remove_nth_fst_image [OF dist k] e by (simp add: r')
  have c1: "length (queue ?p') \<le> length tfs"
    using sh by (simp add: pool_shape_def q')
  have c2: "queue ?p' = drop (nstarted tfs ?p') (enumerate 0 tfs)"
    using sh by (simp add: pool_shape_def q' n')
  have c3: "length (promises ?p') = length tfs"
    using lp by (simp add: pr')
  have c4: "distinct (map fst (running ?p'))"
    using remove_nth_distinct [OF dist] by (simp add: r')
  have sub: "set (running ?p') \<subseteq> set (running p)"
    unfolding r' by (rule remove_nth_subset)
  have c5: "\<forall>(j, tf, lf, name, ts, t0) \<in> set (running ?p').
            j < nstarted tfs ?p' \<and> tf = tfs ! j \<and> lf = unit_log w tf \<and> name = unit_name w tf"
    unfolding n'
  proof (rule ballI)
    fix e assume "e \<in> set (running ?p')"
    then have "e \<in> set (running p)"
      using sub by auto
    with old show "case e of (j, tf, lf, name, ts, t0) \<Rightarrow>
        j < ?n \<and> tf = tfs ! j \<and> lf = unit_log w tf \<and> name = unit_name w tf"
      by (rule bspec)
  qed
  have c6: "\<forall>j < length tfs.
            (promises ?p' ! j = None) = (nstarted tfs ?p' \<le> j \<or> j \<in> fst ` set (running ?p'))"
  proof (intro allI impI)
    fix j assume j: "j < length tfs"
    show "(promises ?p' ! j = None) =
        (nstarted tfs ?p' \<le> j \<or> j \<in> fst ` set (running ?p'))"
    proof (cases "j = i")
      case True
      then show ?thesis
        using iN lp ei(1) by (simp add: pr' n' img)
    next
      case False
      then show ?thesis
        using oldp j by (simp add: pr' n' img)
    qed
  qed
  have oldr: "\<forall>j < length tfs. \<forall>r. promises p ! j = Some r \<longrightarrow>
            taskName r = unit_name w (tfs ! j)
            \<and> (logFile r = None \<or> logFile r = Some (unit_log w (tfs ! j)))"
    using sh by (simp add: pool_shape_def)
  have c7: "\<forall>j < length tfs. \<forall>r'. promises ?p' ! j = Some r' \<longrightarrow>
            taskName r' = unit_name w (tfs ! j)
            \<and> (logFile r' = None \<or> logFile r' = Some (unit_log w (tfs ! j)))"
  proof (intro allI impI)
    fix j r' assume j: "j < length tfs" and s: "promises ?p' ! j = Some r'"
    show "taskName r' = unit_name w (tfs ! j)
            \<and> (logFile r' = None \<or> logFile r' = Some (unit_log w (tfs ! j)))"
    proof (cases "j = i")
      case True
      then have "r' = r"
        using s iN lp by (simp add: pr')
      then show ?thesis
        using r ei True by auto
    next
      case False
      then have "promises p ! j = Some r'"
        using s by (simp add: pr')
      then show ?thesis
        using oldr j by blast
    qed
  qed
  show "pool_shape w tfs ?p'"
    unfolding pool_shape_def by (intro conjI c1 c2 c3 c4 c5 c6 c7)
  show "nstarted tfs ?p' = ?n" by (rule n')
  show "i < length tfs" by (rule iN)
  show "promises p ! i = None" by (rule none)
  show "i < ?n" by (rule ei(1))
qed

lemma pool_counts_finish:
  assumes "pool_counts p" and "i < length (promises p)" and "promises p ! i = None"
  shows "pool_counts (finish_pool p k i r)"
  using assms
  by (simp add: pool_counts_def finish_pool_def settled_update_count)

lemma pool_counts_start: "pool_counts p \<Longrightarrow> pool_counts (start_pool w p s i tf)"
  by (simp add: pool_counts_def start_pool_def)


lemma completed_take_le: "completed (take n evs) \<le> completed evs"
proof (induction evs arbitrary: n)
  case Nil
  show ?case by simp
next
  case (Cons e evs)
  show ?case
  proof (cases n)
    case 0
    then show ?thesis by simp
  next
    case (Suc k)
    then show ?thesis
      using Cons [of k] by (cases e) auto
  qed
qed

lemma runTask_rest_neutral:
  assumes "runTask_rest w tf lf (name, ts, t0) s = (Inr r, s')"
  shows "\<exists>revs. trace s' = trace s @ revs \<and> started revs = 0 \<and> completed revs = 0
           \<and> processed revs = [] \<and> schedule revs = []
           \<and> taskName r = name \<and> (logFile r = None \<or> logFile r = Some lf)"
proof (cases rule: runTask_rest_cases [where w=w and tf=tf and lf=lf and name=name and ts=ts
      and ?t0.0=t0 and s=s])
  case (raised r1 s1 pre msg)
  then have "r1 = r" "s1 = s'" using assms by auto
  then show ?thesis
    using raised(2,4,5) by (intro exI [of _ pre]) auto
next
  case (spawned r1 s1 pre td cwd content cp)
  then have "r1 = r" "s1 = s'" using assms by auto
  then show ?thesis
    using spawned(2,9,10)
    by (intro exI [of _ "pre @ [SpawnAgent cwd content cp (resolve w lf)]"]) auto
qed

text \<open>The bound on the units in flight holds of every prefix of an extended trace.\<close>

lemma in_flight_extend:
  assumes old: "\<forall>n \<le> length evs.
        started (take n evs) \<le> completed (take n evs) + m
        \<and> completed (take n evs) \<le> started (take n evs)"
    and hi: "started evs + started ext \<le> completed evs + m"
    and lo: "completed evs + completed ext \<le> started evs"
  shows "\<forall>n \<le> length (evs @ ext).
        started (take n (evs @ ext)) \<le> completed (take n (evs @ ext)) + m
        \<and> completed (take n (evs @ ext)) \<le> started (take n (evs @ ext))"
proof (intro allI impI)
  fix n assume "n \<le> length (evs @ ext)"
  show "started (take n (evs @ ext)) \<le> completed (take n (evs @ ext)) + m
        \<and> completed (take n (evs @ ext)) \<le> started (take n (evs @ ext))"
  proof (cases "n \<le> length evs")
    case True
    then show ?thesis using old by simp
  next
    case False
    then have t: "take n (evs @ ext) = evs @ take (n - length evs) ext"
      by simp
    have "started (take (n - length evs) ext) \<le> started ext"
      and "completed (take (n - length evs) ext) \<le> completed ext"
      by (rule started_take_le, rule completed_take_le)
    then show ?thesis
      unfolding t using hi lo by (simp add: started_append completed_append)
  qed
qed

lemma pool_trace_start:
  assumes tr: "pool_trace w tfs m b p s" and i: "i = nstarted tfs p" and tf: "tf = tfs ! i"
    and iN: "i < length tfs"
    and n': "nstarted tfs (start_pool w p s i tf) = Suc (nstarted tfs p)"
    and free: "length (running p) < m"
  shows "pool_trace w tfs m b (start_pool w p s i tf) (start_state w s i tf)"
proof -
  let ?k = "nstarted tfs p"
  let ?p' = "start_pool w p s i tf"
  let ?ext = "[TaskStarting i (unit_name w tf), Processing (unit_name w tf)]"
  obtain evs where e: "trace s = b @ evs"
      "processed evs = map (unit_name w) (take ?k tfs)"
      "started evs = ?k" "completed evs + length (running p) = ?k" "length (running p) \<le> m"
      "\<forall>n \<le> length evs. started (take n evs) \<le> completed (take n evs) + m
              \<and> completed (take n evs) \<le> started (take n evs)"
      "m = 1 \<longrightarrow>
              schedule evs =
                concat (map (\<lambda>i. [(True, i), (False, i)]) [0..<?k - length (running p)])
                @ map (\<lambda>e. (True, fst e)) (running p)
              \<and> (\<forall>e \<in> set (running p). Suc (fst e) = ?k)"
    using tr unfolding pool_trace_def by blast
  have r': "running ?p' = running p @
         [(i, tf, unit_log w tf, unit_name w tf, timestamp_text w (clock w (ticks s)),
           clock w (Suc (ticks s)))]"
    by (simp add: start_pool_def)
  have c1: "trace (start_state w s i tf) = b @ (evs @ ?ext)"
    using e(1) by (simp add: start_state_def)
  have c2: "processed (evs @ ?ext) = map (unit_name w) (take (nstarted tfs ?p') tfs)"
    unfolding n' using e(2) i tf iN by (simp add: processed_append take_Suc_conv_app_nth)
  have c3: "started (evs @ ?ext) = nstarted tfs ?p'"
    unfolding n' using e(3) by (simp add: started_append)
  have c4: "completed (evs @ ?ext) + length (running ?p') = nstarted tfs ?p'"
    unfolding n' r' using e(4) by (simp add: completed_append)
  have c5: "length (running ?p') \<le> m"
    using free by (simp add: r')
  have c6: "\<forall>n \<le> length (evs @ ?ext).
        started (take n (evs @ ?ext)) \<le> completed (take n (evs @ ?ext)) + m
        \<and> completed (take n (evs @ ?ext)) \<le> started (take n (evs @ ?ext))"
    using e(3,4) free by (intro in_flight_extend [OF e(6)]) auto
  have c7: "m = 1 \<longrightarrow>
              schedule (evs @ ?ext) =
                concat (map (\<lambda>i. [(True, i), (False, i)])
                          [0..<nstarted tfs ?p' - length (running ?p')])
                @ map (\<lambda>e. (True, fst e)) (running ?p')
              \<and> (\<forall>e \<in> set (running ?p'). Suc (fst e) = nstarted tfs ?p')"
  proof
    assume m: "m = 1"
    then have emp: "running p = []"
      using free by simp
    then show "schedule (evs @ ?ext) =
                concat (map (\<lambda>i. [(True, i), (False, i)])
                          [0..<nstarted tfs ?p' - length (running ?p')])
                @ map (\<lambda>e. (True, fst e)) (running ?p')
              \<and> (\<forall>e \<in> set (running ?p'). Suc (fst e) = nstarted tfs ?p')"
      unfolding n' r' using e(7) m i by (simp add: schedule_append)
  qed
  show ?thesis
    unfolding pool_trace_def
    by (rule exI [of _ "evs @ ?ext"]) (intro conjI c1 c2 c3 c4 c5 c6 c7)
qed

lemma pool_trace_finish:
  assumes tr: "pool_trace w tfs m b p s" and k: "k < length (running p)"
    and e: "running p ! k = (i, tf, lf, name, ts, t0)"
    and run: "runTask_rest w tf lf (name, ts, t0) s = (Inr r, s')"
    and n': "nstarted tfs (finish_pool p k i r) = nstarted tfs p"
  shows "pool_trace w tfs m b (finish_pool p k i r) (finish_state s' i r)"
proof -
  let ?n = "nstarted tfs p"
  let ?p' = "finish_pool p k i r"
  obtain revs where rv: "trace s' = trace s @ revs" "started revs = 0" "completed revs = 0"
      "processed revs = []" "schedule revs = []"
    using runTask_rest_neutral [OF run] by blast
  let ?ext = "revs @ [TaskSettled i (success r)]"
  obtain evs where ev: "trace s = b @ evs"
      "processed evs = map (unit_name w) (take ?n tfs)"
      "started evs = ?n" "completed evs + length (running p) = ?n" "length (running p) \<le> m"
      "\<forall>n \<le> length evs. started (take n evs) \<le> completed (take n evs) + m
              \<and> completed (take n evs) \<le> started (take n evs)"
      "m = 1 \<longrightarrow>
              schedule evs =
                concat (map (\<lambda>i. [(True, i), (False, i)]) [0..<?n - length (running p)])
                @ map (\<lambda>e. (True, fst e)) (running p)
              \<and> (\<forall>e \<in> set (running p). Suc (fst e) = ?n)"
    using tr unfolding pool_trace_def by blast
  have r': "running ?p' = take k (running p) @ drop (Suc k) (running p)"
    by (simp add: finish_pool_def)
  have lr: "length (running ?p') = length (running p) - 1"
    unfolding r' using k by (rule remove_nth_length)
  have c1: "trace (finish_state s' i r) = b @ (evs @ ?ext)"
    using ev(1) rv(1) by (simp add: finish_state_def)
  have c2: "processed (evs @ ?ext) = map (unit_name w) (take (nstarted tfs ?p') tfs)"
    using ev(2) rv(4) by (simp add: processed_append n')
  have c3: "started (evs @ ?ext) = nstarted tfs ?p'"
    using ev(3) rv(2) by (simp add: started_append n')
  have c4: "completed (evs @ ?ext) + length (running ?p') = nstarted tfs ?p'"
    using ev(4) rv(3) k by (simp add: completed_append n' lr)
  have c5: "length (running ?p') \<le> m"
    using ev(5) by (simp add: lr)
  have c6: "\<forall>n \<le> length (evs @ ?ext).
        started (take n (evs @ ?ext)) \<le> completed (take n (evs @ ?ext)) + m
        \<and> completed (take n (evs @ ?ext)) \<le> started (take n (evs @ ?ext))"
    using ev(3,4,5) rv(2,3) k
    by (intro in_flight_extend [OF ev(6)]) (auto simp: started_append completed_append)
  have c7: "m = 1 \<longrightarrow>
              schedule (evs @ ?ext) =
                concat (map (\<lambda>i. [(True, i), (False, i)])
                          [0..<nstarted tfs ?p' - length (running ?p')])
                @ map (\<lambda>e. (True, fst e)) (running ?p')
              \<and> (\<forall>e \<in> set (running ?p'). Suc (fst e) = nstarted tfs ?p')"
  proof
    assume m: "m = 1"
    then have one: "length (running p) = 1"
      using ev(5) k by simp
    then have k0: "k = 0" using k by simp
    obtain x where x: "running p = [x]"
      using one by (cases "running p") auto
    have xi: "fst x = i"
      using e k0 x by simp
    have si: "Suc i = ?n"
      using ev(7) m x xi by simp
    have emp: "running ?p' = []"
      unfolding r' using x k0 by simp
    have "?n - length (running p) = i"
      using si one by simp
    then have "schedule evs = concat (map (\<lambda>i. [(True, i), (False, i)]) [0..<i]) @ [(True, i)]"
      using ev(7) m x xi by simp
    then show "schedule (evs @ ?ext) =
                concat (map (\<lambda>i. [(True, i), (False, i)])
                          [0..<nstarted tfs ?p' - length (running ?p')])
                @ map (\<lambda>e. (True, fst e)) (running ?p')
              \<and> (\<forall>e \<in> set (running ?p'). Suc (fst e) = nstarted tfs ?p')"
      using rv(5) si [symmetric] by (simp add: schedule_append n' emp)
  qed
  show ?thesis
    unfolding pool_trace_def
    by (rule exI [of _ "evs @ ?ext"]) (intro conjI c1 c2 c3 c4 c5 c6 c7)
qed


lemma settled_replicate_None: "settled (replicate n None) = []"
  by (induction n) auto

lemma pool_inv_init: "pool_inv w tfs m (trace s) (initial_pool tfs) s"
proof -
  have n: "nstarted tfs (initial_pool tfs) = 0"
    by (simp add: nstarted_def initial_pool_def)
  have "pool_shape w tfs (initial_pool tfs)"
    unfolding pool_shape_def n by (simp add: initial_pool_def)
  moreover have "pool_counts (initial_pool tfs)"
    by (simp add: pool_counts_def initial_pool_def settled_replicate_None)
  moreover have "pool_trace w tfs m (trace s) (initial_pool tfs) s"
    unfolding pool_trace_def n
    by (rule exI [of _ "[]"]) (simp add: initial_pool_def)
  ultimately show ?thesis
    by (simp add: pool_inv_def)
qed

lemma pool_inv_start:
  assumes "pool_inv w tfs m b p s" and "queue p = (i, tf) # rest" and "length (running p) < m"
  shows "pool_inv w tfs m b (start_pool w p s i tf) (start_state w s i tf)"
proof -
  have sh: "pool_shape w tfs p" and co: "pool_counts p" and tr: "pool_trace w tfs m b p s"
    using assms(1) by (simp_all add: pool_inv_def)
  note st1 = pool_shape_start(1) [OF sh assms(2), where s=s]
    and st2 = pool_shape_start(2) [OF sh assms(2)]
    and st3 = pool_shape_start(3) [OF sh assms(2)]
    and st4 = pool_shape_start(4) [OF sh assms(2)]
    and st5 = pool_shape_start(5) [OF sh assms(2), where s=s]
  have "pool_trace w tfs m b (start_pool w p s i tf) (start_state w s i tf)"
    using tr st2 st3 st4 st5 assms(3) by (rule pool_trace_start)
  then show ?thesis
    using st1 pool_counts_start [OF co] by (simp add: pool_inv_def)
qed

lemma pool_inv_finish:
  assumes "pool_inv w tfs m b p s" and "k < length (running p)"
    and "running p ! k = (i, tf, lf, ctx)"
    and "runTask_rest w tf lf ctx s = (Inr r, s')"
  shows "pool_inv w tfs m b (finish_pool p k i r) (finish_state s' i r)"
proof -
  obtain name ts t0 where ctx: "ctx = (name, ts, t0)" by (cases ctx)
  have sh: "pool_shape w tfs p" and co: "pool_counts p" and tr: "pool_trace w tfs m b p s"
    using assms(1) by (simp_all add: pool_inv_def)
  have e: "running p ! k = (i, tf, lf, name, ts, t0)"
    using assms(3) ctx by simp
  have run: "runTask_rest w tf lf (name, ts, t0) s = (Inr r, s')"
    using assms(4) ctx by simp
  have r: "taskName r = name" "logFile r = None \<or> logFile r = Some lf"
    using runTask_rest_neutral [OF run] by auto
  note fi = pool_shape_finish [OF sh assms(2) e r]
  have lp: "length (promises p) = length tfs"
    using sh by (simp add: pool_shape_def)
  have "pool_counts (finish_pool p k i r)"
    using co fi(3) fi(4) lp by (intro pool_counts_finish) simp_all
  moreover have "pool_trace w tfs m b (finish_pool p k i r) (finish_state s' i r)"
    using tr assms(2) e run fi(2) by (rule pool_trace_finish)
  ultimately show ?thesis
    using fi(1) by (simp add: pool_inv_def)
qed

text \<open>
  What an execution with a bound of at least 1 returns and leaves in the trace, for
  every order of completion.
\<close>

lemma executeWithConcurrency_run:
  assumes "1 \<le> m"
  shows "\<exists>ex s'. executeWithConcurrency w tfs m picks s = (Inr ex, s')
     \<and> length (results ex) = length tfs
     \<and> successful ex = length (filter success (results ex))
     \<and> failed ex = length (filter (\<lambda>r. \<not> success r) (results ex))
     \<and> (\<forall>i < length tfs. taskName (results ex ! i) = unit_name w (tfs ! i)
            \<and> (logFile (results ex ! i) = None
                \<or> logFile (results ex ! i) = Some (unit_log w (tfs ! i))))
     \<and> processed (new_events s s') = map (unit_name w) tfs
     \<and> started (new_events s s') = length tfs
     \<and> completed (new_events s s') = length tfs
     \<and> (\<forall>n \<le> length (new_events s s').
           started (take n (new_events s s')) \<le> completed (take n (new_events s s')) + m
           \<and> completed (take n (new_events s s')) \<le> started (take n (new_events s s')))
     \<and> (m = 1 \<longrightarrow> schedule (new_events s s') =
           concat (map (\<lambda>i. [(True, i), (False, i)]) [0..<length tfs]))"
proof -
  have "\<exists>p s'. run_pool w m picks (initial_pool tfs) s = (Inr p, s')
      \<and> pool_inv w tfs m (trace s) p s' \<and> running p = [] \<and> (queue p = [] \<or> m = 0)"
  proof (rule run_pool_invariant [where I="pool_inv w tfs m (trace s)"])
    show "pool_inv w tfs m (trace s) (initial_pool tfs) s"
      by (rule pool_inv_init)
  next
    fix p s0 i tf rest
    assume "pool_inv w tfs m (trace s) p s0" "queue p = (i, tf) # rest" "length (running p) < m"
    then show "pool_inv w tfs m (trace s) (start_pool w p s0 i tf) (start_state w s0 i tf)"
      by (rule pool_inv_start)
  next
    fix p s0 k i tf lf ctx r s1
    assume "pool_inv w tfs m (trace s) p s0" "k < length (running p)"
      "running p ! k = (i, tf, lf, ctx)" "runTask_rest w tf lf ctx s0 = (Inr r, s1)"
    then show "pool_inv w tfs m (trace s) (finish_pool p k i r) (finish_state s1 i r)"
      by (rule pool_inv_finish)
  qed
  then obtain p s' where run: "run_pool w m picks (initial_pool tfs) s = (Inr p, s')"
    and inv: "pool_inv w tfs m (trace s) p s'" and r0: "running p = []"
    and q0: "queue p = [] \<or> m = 0"
    by blast
  have q: "queue p = []"
    using q0 assms by simp
  then have n: "nstarted tfs p = length tfs"
    by (simp add: nstarted_def)
  have sh: "pool_shape w tfs p" and co: "pool_counts p"
    and tr: "pool_trace w tfs m (trace s) p s'"
    using inv by (simp_all add: pool_inv_def)
  have lp: "length (promises p) = length tfs"
    using sh by (simp add: pool_shape_def)
  have "\<forall>i < length tfs. promises p ! i \<noteq> None"
    using sh n r0 unfolding pool_shape_def by simp
  then have all: "map Some (settled (promises p)) = promises p"
    using lp settled_all by simp
  then have ls: "length (settled (promises p)) = length tfs"
    using lp by (metis length_map)
  have nth: "\<And>i. i < length tfs \<Longrightarrow> promises p ! i = Some (settled (promises p) ! i)"
    using all ls by (metis nth_map)
  have own: "\<forall>i < length tfs. taskName (settled (promises p) ! i) = unit_name w (tfs ! i)
            \<and> (logFile (settled (promises p) ! i) = None
                \<or> logFile (settled (promises p) ! i) = Some (unit_log w (tfs ! i)))"
    using sh nth unfolding pool_shape_def by blast
  obtain evs where ev: "trace s' = trace s @ evs"
      "processed evs = map (unit_name w) (take (nstarted tfs p) tfs)"
      "started evs = nstarted tfs p" "completed evs + length (running p) = nstarted tfs p"
      "\<forall>n \<le> length evs. started (take n evs) \<le> completed (take n evs) + m
              \<and> completed (take n evs) \<le> started (take n evs)"
      "m = 1 \<longrightarrow>
              schedule evs =
                concat (map (\<lambda>i. [(True, i), (False, i)])
                  [0..<nstarted tfs p - length (running p)])
                @ map (\<lambda>e. (True, fst e)) (running p)
              \<and> (\<forall>e \<in> set (running p). Suc (fst e) = nstarted tfs p)"
    using tr unfolding pool_trace_def by blast
  have ne: "new_events s s' = evs"
    using ev(1) by (rule new_events_append)
  let ?ex = "\<lparr>successful = successful p, failed = failed p,
              results = settled (promises p)\<rparr>"
  have exec: "executeWithConcurrency w tfs m picks s = (Inr ?ex, s')"
    using assms run by (simp add: executeWithConcurrency_def bind_io_def return_io_def)
  show ?thesis
    apply (rule exI [of _ ?ex], rule exI [of _ s'])
    apply (insert exec ls co own ev(2-6) n r0)
    apply (simp add: ne pool_counts_def)
    done
qed

section \<open>Properties of the scheduler\<close>

lemma demo_exec:
  "executeWithConcurrency demo_world demo_files 2 [1, 1, 0] fresh =
     (Inr \<lparr>successful = 1, failed = 2, results = demo_results\<rparr>,
      \<lparr>claudePath = Some ''/usr/local/bin/claude'', ticks = 12, trace = demo_trace\<rparr>)"
  by code_simp

lemma demo_taskFiles: "executeTasks_taskFiles demo_world ''/t'' fresh = (Inr demo_files, fresh)"
  by code_simp

lemma prefix_taskFiles:
  "executeTasks_taskFiles prefix_world ''out'' fresh =
     (Inr [''out/a-b/task.md'', ''out/a/task.md''], fresh)"
  by code_simp

lemma prefix_processed:
  "processed (trace (snd (executeTasks prefix_world ''out'' 1 [] fresh))) = [''a-b'', ''a'']"
  by code_simp

lemma prefix_names:
  "map (unit_name prefix_world) [''out/a-b/task.md'', ''out/a/task.md''] = [''a-b'', ''a'']"
  by code_simp

lemma prefix_order: "''a'' < ''a-b''" "\<not> sorted [''a-b'', ''a'']"
  by code_simp+

lemma new_events_same: "new_events s s = []"
  by (simp add: new_events_def)

lemma executeWithConcurrency_zero:
  "executeWithConcurrency w tfs 0 picks s =
     (Inl ''Expected concurrency to be a number from 1 and up'', s)"
  by (simp add: executeWithConcurrency_def throw_io_def)

lemma executeTasks_taskFiles_state: "snd (executeTasks_taskFiles w d s) = s"
  by (auto simp: executeTasks_taskFiles_def bind_io_def await_io_def throw_io_def return_io_def
      Let_def split: sum.splits)

lemma executeTasks_taskFiles_sorted:
  "fst (executeTasks_taskFiles w d s) = Inr tfs \<Longrightarrow> sorted tfs \<and> tfs \<noteq> []"
  by (auto simp: executeTasks_taskFiles_def bind_io_def await_io_def throw_io_def return_io_def
      Let_def split: sum.splits if_splits)



text \<open>
  Claim C2. In the trace of an execution, at every instant (after every prefix of the
  events recorded), the units started and not yet settled are at most \<open>maxJobs\<close>. With
  \<open>maxJobs = 1\<close> the units start and settle strictly one after the other in the order
  of submission: start 0, settle 0, start 1, settle 1, and so on, so that unit \<open>i + 1\<close>
  starts only after unit \<open>i\<close> has settled.
\<close>

theorem in_flight_never_exceeds_maxJobs:
  "(\<forall>n \<le> length (new_events s (snd (executeWithConcurrency w taskFiles maxJobs picks s))).
      started (take n (new_events s (snd (executeWithConcurrency w taskFiles maxJobs picks s))))
        \<le> completed
             (take n (new_events s (snd (executeWithConcurrency w taskFiles maxJobs picks s))))
           + maxJobs)
   \<and> (maxJobs = 1 \<longrightarrow>
        schedule (new_events s (snd (executeWithConcurrency w taskFiles maxJobs picks s))) =
          concat (map (\<lambda>i. [(True, i), (False, i)]) [0..<length taskFiles]))"
proof (cases "1 \<le> maxJobs")
  case True
  then show ?thesis
    using executeWithConcurrency_run [OF True, of w taskFiles picks s] by auto
next
  case False
  then have "maxJobs = 0" by simp
  then show ?thesis
    by (simp add: executeWithConcurrency_zero new_events_same)
qed

theorem in_flight_never_exceeds_maxJobs_witness:
  "schedule (new_events fresh (snd (executeWithConcurrency demo_world demo_files 2 [1, 1, 0] fresh)))
     = [(True, 0), (True, 1), (False, 1), (True, 2), (False, 2), (False, 0)]
   \<and> started (take 3 (new_events fresh
         (snd (executeWithConcurrency demo_world demo_files 2 [1, 1, 0] fresh))))
       \<le> completed (take 3 (new_events fresh
         (snd (executeWithConcurrency demo_world demo_files 2 [1, 1, 0] fresh)))) + 2
   \<and> schedule (new_events fresh (snd (executeWithConcurrency demo_world demo_files 1 [] fresh)))
     = [(True, 0), (False, 0), (True, 1), (False, 1), (True, 2), (False, 2)]"
proof -
  have l: "length demo_files = 3"
    by (simp add: demo_files_def)
  have u: "[0..<3] = [0, 1, 2]"
    by (simp add: upt_conv_Cons)
  have a: "schedule (new_events fresh
      (snd (executeWithConcurrency demo_world demo_files 2 [1, 1, 0] fresh)))
     = [(True, 0), (True, 1), (False, 1), (True, 2), (False, 2), (False, 0)]"
    unfolding demo_exec by (simp add: new_events_def fresh_def demo_trace_def)
  have b: "started (take 3 (new_events fresh
         (snd (executeWithConcurrency demo_world demo_files 2 [1, 1, 0] fresh))))
       \<le> completed (take 3 (new_events fresh
         (snd (executeWithConcurrency demo_world demo_files 2 [1, 1, 0] fresh)))) + 2"
    using in_flight_never_exceeds_maxJobs [of fresh demo_world demo_files 2 "[1, 1, 0]"]
    unfolding demo_exec by (simp add: new_events_def fresh_def demo_trace_def)
  have c: "schedule (new_events fresh
      (snd (executeWithConcurrency demo_world demo_files 1 [] fresh)))
     = [(True, 0), (False, 0), (True, 1), (False, 1), (True, 2), (False, 2)]"
    using in_flight_never_exceeds_maxJobs [of fresh demo_world demo_files 1 "[]"]
    by (simp add: l u)
  show ?thesis
    using a b c by simp
qed

text \<open>
  Claim C6, as stated, fails in its second half: \<open>executeTasks\<close> sorts the paths of the
  task files, which is not the order of the unit identifiers. For the units \<^verbatim>\<open>a\<close>
  and \<^verbatim>\<open>a-b\<close> the sorted paths are \<^verbatim>\<open>out/a-b/task.md\<close>, \<^verbatim>\<open>out/a/task.md\<close>
  (the character \<^verbatim>\<open>-\<close> is below \<^verbatim>\<open>/\<close>), so unit \<^verbatim>\<open>a-b\<close> is submitted, and
  run, before unit \<^verbatim>\<open>a\<close>, although \<^verbatim>\<open>a\<close> is the smaller identifier.
\<close>

theorem executeTasks_order_is_not_identifier_order:
  "fst (executeTasks_taskFiles prefix_world ''out'' fresh) =
     Inr [''out/a-b/task.md'', ''out/a/task.md'']
   \<and> map (unit_name prefix_world) [''out/a-b/task.md'', ''out/a/task.md''] = [''a-b'', ''a'']
   \<and> ''a'' < ''a-b''
   \<and> \<not> sorted [''a-b'', ''a'']
   \<and> processed (trace (snd (executeTasks prefix_world ''out'' 1 [] fresh))) = [''a-b'', ''a'']"
proof -
  have a: "fst (executeTasks_taskFiles prefix_world ''out'' fresh) =
     Inr [''out/a-b/task.md'', ''out/a/task.md'']"
    by (simp only: prefix_taskFiles fst_conv)
  show ?thesis
    using a prefix_names prefix_order(1) prefix_order(2) prefix_processed by (intro conjI)
qed

text \<open>
  Claim C6, amended. Whatever the order in which the units complete, the results of
  \<open>executeWithConcurrency\<close> are in the order of submission: result \<open>i\<close> is the Outcome
  of task file \<open>i\<close> (it has its unit's name, and its unit's log file if any). The list
  \<open>executeTasks\<close> submits is in ascending lexicographic order of the task file paths,
  and its units enter the task runner in that order.
\<close>

theorem results_in_submission_order:
  "(1 \<le> maxJobs \<longrightarrow>
      (\<exists>ex s'. executeWithConcurrency w taskFiles maxJobs picks s = (Inr ex, s')
         \<and> map taskName (results ex) = map (unit_name w) taskFiles
         \<and> (\<forall>i < length taskFiles.
               logFile (results ex ! i) = None
               \<or> logFile (results ex ! i) = Some (unit_log w (taskFiles ! i)))))
   \<and> (1 \<le> maxJobs \<and> fst (executeTasks_taskFiles w outputDir' s) = Inr taskFiles \<longrightarrow>
        sorted taskFiles
        \<and> (\<exists>rep s'. executeTasks w outputDir' maxJobs picks s = (Inr rep, s')
              \<and> totalTasks rep = length taskFiles
              \<and> processed (new_events s s') = map (unit_name w) taskFiles))"
proof (intro conjI impI)
  assume m: "1 \<le> maxJobs"
  obtain ex s' where run: "executeWithConcurrency w taskFiles maxJobs picks s = (Inr ex, s')"
    and len: "length (results ex) = length taskFiles"
    and own: "\<forall>i < length taskFiles. taskName (results ex ! i) = unit_name w (taskFiles ! i)
            \<and> (logFile (results ex ! i) = None
                \<or> logFile (results ex ! i) = Some (unit_log w (taskFiles ! i)))"
    using executeWithConcurrency_run [OF m, of w taskFiles picks s] by blast
  have "map taskName (results ex) = map (unit_name w) taskFiles"
    using len own by (intro nth_equalityI) simp_all
  then show "\<exists>ex s'. executeWithConcurrency w taskFiles maxJobs picks s = (Inr ex, s')
         \<and> map taskName (results ex) = map (unit_name w) taskFiles
         \<and> (\<forall>i < length taskFiles.
               logFile (results ex ! i) = None
               \<or> logFile (results ex ! i) = Some (unit_log w (taskFiles ! i)))"
    using run own by blast
next
  assume a: "1 \<le> maxJobs \<and> fst (executeTasks_taskFiles w outputDir' s) = Inr taskFiles"
  then show "sorted taskFiles"
    using executeTasks_taskFiles_sorted by blast
next
  assume a: "1 \<le> maxJobs \<and> fst (executeTasks_taskFiles w outputDir' s) = Inr taskFiles"
  then have m: "1 \<le> maxJobs" and f: "fst (executeTasks_taskFiles w outputDir' s) = Inr taskFiles"
    by simp_all
  have tf: "executeTasks_taskFiles w outputDir' s = (Inr taskFiles, s)"
    using f executeTasks_taskFiles_state [of w outputDir' s] by (metis prod.collapse)
  let ?s1 = "s\<lparr>ticks := Suc (Suc (ticks s))\<rparr>"
  obtain ex s2 where run: "executeWithConcurrency w taskFiles maxJobs picks ?s1 = (Inr ex, s2)"
    and pr: "processed (new_events ?s1 s2) = map (unit_name w) taskFiles"
    using executeWithConcurrency_run [OF m, of w taskFiles picks ?s1] by blast
  let ?rep = "\<lparr>successful = successful ex, failed = failed ex,
             totalTasks = length taskFiles,
             report_startTimestamp = timestamp_text w (clock w (ticks s)),
             report_endTimestamp = timestamp_text w (clock w (ticks s2)),
             report_duration = formatDuration
               (calculateDuration (clock w (Suc (ticks s))) (clock w (Suc (ticks s2)))),
             outputDir = outputDir'\<rparr>"
  let ?s3 = "s2\<lparr>ticks := Suc (Suc (ticks s2))\<rparr>"
  have exec: "executeTasks w outputDir' maxJobs picks s = (Inr ?rep, ?s3)"
    by (simp add: executeTasks_def bind_io_def tf formatTimestamp_effect read_clock_def run
        return_io_def Let_def)
  have "new_events s ?s3 = new_events ?s1 s2"
    by (simp add: new_events_def)
  then show "\<exists>rep s'. executeTasks w outputDir' maxJobs picks s = (Inr rep, s')
              \<and> totalTasks rep = length taskFiles
              \<and> processed (new_events s s') = map (unit_name w) taskFiles"
    using exec pr by (intro exI [of _ ?rep] exI [of _ ?s3]) simp
qed

theorem results_in_submission_order_witness:
  "(1::nat) \<le> 2
   \<and> fst (executeTasks_taskFiles demo_world ''/t'' fresh) = Inr demo_files
   \<and> sorted demo_files
   \<and> schedule (new_events fresh
        (snd (executeWithConcurrency demo_world demo_files 2 [1, 1, 0] fresh)))
       = [(True, 0), (True, 1), (False, 1), (True, 2), (False, 2), (False, 0)]
   \<and> (\<exists>ex s'. executeWithConcurrency demo_world demo_files 2 [1, 1, 0] fresh = (Inr ex, s')
        \<and> map taskName (results ex) = [''001'', ''002'', ''003''])"
proof -
  have h: "(1::nat) \<le> 2" by simp
  have f: "fst (executeTasks_taskFiles demo_world ''/t'' fresh) = Inr demo_files"
    by (simp only: demo_taskFiles fst_conv)
  have names: "map (unit_name demo_world) demo_files = [''001'', ''002'', ''003'']"
    by code_simp
  have a: "schedule (new_events fresh
      (snd (executeWithConcurrency demo_world demo_files 2 [1, 1, 0] fresh)))
     = [(True, 0), (True, 1), (False, 1), (True, 2), (False, 2), (False, 0)]"
    unfolding demo_exec by (simp add: new_events_def fresh_def demo_trace_def)
  note inst = results_in_submission_order
    [of 2 demo_world demo_files "[1, 1, 0]" fresh "''/t''"]
  have s: "sorted demo_files"
    using conjunct2 [OF inst, THEN mp, OF conjI [OF h f]] by (rule conjunct1)
  obtain ex s' where
    "executeWithConcurrency demo_world demo_files 2 [1, 1, 0] fresh = (Inr ex, s')"
    "map taskName (results ex) = map (unit_name demo_world) demo_files"
    using conjunct1 [OF inst, THEN mp, OF h] by blast
  then have r: "\<exists>ex s'. executeWithConcurrency demo_world demo_files 2 [1, 1, 0] fresh
          = (Inr ex, s')
        \<and> map taskName (results ex) = [''001'', ''002'', ''003'']"
    unfolding names by auto
  show ?thesis
    using h f s a r by (intro conjI)
qed

text \<open>
  Claim C7. \<open>runTask\<close> never raises: for every task file, log file and state it returns
  an Outcome, and whenever the \<open>try\<close> block raises (an unreadable task file, paths that
  cannot be extracted, a missing directory, a log directory that cannot be made) the
  Outcome returned is a failure that carries the message raised; a failure of the agent
  command is a returned Outcome with \<open>success = False\<close> too. Hence an execution with
  a bound of at least 1 never raises either: every unit enters the task runner, is
  settled, and has its Outcome in the results, whichever units fail.
\<close>

theorem runTask_never_raises:
  "(\<exists>r s'. runTask w taskFile logFile' s = (Inr r, s')
      \<and> (\<forall>ctx s1 msg s2. runTask_begin w taskFile s = (Inr ctx, s1)
             \<and> runTask_try w taskFile logFile' ctx s1 = (Inl msg, s2) \<longrightarrow>
           \<not> success r \<and> error r = Some msg)
      \<and> (\<forall>cwd content claude log.
             SpawnAgent cwd content claude log \<in> set (new_events s s')
             \<and> shell_exit w cwd content claude log \<noteq> 0 \<longrightarrow> \<not> success r))
   \<and> (1 \<le> maxJobs \<longrightarrow>
        (\<exists>ex s'. executeWithConcurrency w taskFiles maxJobs picks s = (Inr ex, s')
           \<and> length (results ex) = length taskFiles
           \<and> processed (new_events s s') = map (unit_name w) taskFiles
           \<and> completed (new_events s s') = length taskFiles))"
proof (intro conjI impI)
  have b: "runTask_begin w taskFile s =
      (Inr (unit_name w taskFile, timestamp_text w (clock w (ticks s)), clock w (Suc (ticks s))),
       begun s w taskFile)"
    by (simp add: runTask_begin_effect begun_def)
  show "\<exists>r s'. runTask w taskFile logFile' s = (Inr r, s')
      \<and> (\<forall>ctx s1 msg s2. runTask_begin w taskFile s = (Inr ctx, s1)
             \<and> runTask_try w taskFile logFile' ctx s1 = (Inl msg, s2) \<longrightarrow>
           \<not> success r \<and> error r = Some msg)
      \<and> (\<forall>cwd content claude log.
             SpawnAgent cwd content claude log \<in> set (new_events s s')
             \<and> shell_exit w cwd content claude log \<noteq> 0 \<longrightarrow> \<not> success r)"
  proof (cases rule: runTask_cases [where w=w and tf=taskFile and lf=logFile' and s=s])
    case (raised r s' pre msg)
    have "\<forall>ctx s1 msg' s2. runTask_begin w taskFile s = (Inr ctx, s1)
             \<and> runTask_try w taskFile logFile' ctx s1 = (Inl msg', s2) \<longrightarrow>
           \<not> success r \<and> error r = Some msg'"
      using raised(3,5) unfolding b by auto
    moreover have "\<not> success r"
      using raised(5) by simp
    ultimately show ?thesis
      using raised(1) by blast
  next
    case (spawned r s' pre td cwd content cp)
    have "\<forall>ctx s1 msg' s2. runTask_begin w taskFile s = (Inr ctx, s1)
             \<and> runTask_try w taskFile logFile' ctx s1 = (Inl msg', s2) \<longrightarrow>
           \<not> success r \<and> error r = Some msg'"
      using spawned(9) unfolding b by auto
    moreover have "new_events s s' = [Processing (unit_name w taskFile)] @ pre @
                    [SpawnAgent cwd content cp (resolve w logFile')]"
      using spawned(8) by (rule new_events_append)
    then have "\<forall>cwd' content' claude log.
             SpawnAgent cwd' content' claude log \<in> set (new_events s s')
             \<and> shell_exit w cwd' content' claude log \<noteq> 0 \<longrightarrow> \<not> success r"
      using spawned(2,10) by auto
    ultimately show ?thesis
      using spawned(1) by blast
  qed
next
  assume "1 \<le> maxJobs"
  then show "\<exists>ex s'. executeWithConcurrency w taskFiles maxJobs picks s = (Inr ex, s')
           \<and> length (results ex) = length taskFiles
           \<and> processed (new_events s s') = map (unit_name w) taskFiles
           \<and> completed (new_events s s') = length taskFiles"
    using executeWithConcurrency_run [of maxJobs w taskFiles picks s] by blast
qed

lemma demo_begin_004:
  "runTask_begin demo_world ''/t/004/task.md'' fresh =
     (Inr (''004'', ''2025-01-01 00:00:00'', 1000),
      \<lparr>claudePath = None, ticks = 2, trace = [Processing ''004'']\<rparr>)"
  by code_simp

lemma demo_try_004:
  "runTask_try demo_world ''/t/004/task.md'' ''/t/004/execution.log''
       (''004'', ''2025-01-01 00:00:00'', 1000)
       \<lparr>claudePath = None, ticks = 2, trace = [Processing ''004'']\<rparr> =
     (Inl ''ENOENT: no such file or directory, open /t/004/task.md'',
      \<lparr>claudePath = Some ''/usr/local/bin/claude'', ticks = 2, trace = [Processing ''004'']\<rparr>)"
  by code_simp

theorem runTask_never_raises_witness:
  "runTask_begin demo_world ''/t/004/task.md'' fresh =
     (Inr (''004'', ''2025-01-01 00:00:00'', 1000),
      \<lparr>claudePath = None, ticks = 2, trace = [Processing ''004'']\<rparr>)
   \<and> runTask_try demo_world ''/t/004/task.md'' ''/t/004/execution.log''
       (''004'', ''2025-01-01 00:00:00'', 1000)
       \<lparr>claudePath = None, ticks = 2, trace = [Processing ''004'']\<rparr> =
     (Inl ''ENOENT: no such file or directory, open /t/004/task.md'',
      \<lparr>claudePath = Some ''/usr/local/bin/claude'', ticks = 2, trace = [Processing ''004'']\<rparr>)
   \<and> (\<exists>r s'. runTask demo_world ''/t/004/task.md'' ''/t/004/execution.log'' fresh = (Inr r, s')
        \<and> \<not> success r
        \<and> error r = Some ''ENOENT: no such file or directory, open /t/004/task.md'')
   \<and> (\<exists>r s'. runTask demo_world ''/t/003/task.md'' ''/t/003/execution.log'' fresh = (Inr r, s')
        \<and> SpawnAgent ''/t/003/repo'' (task_md ''/t/003'') ''/usr/local/bin/claude''
              ''/t/003/execution.log'' \<in> set (new_events fresh s')
        \<and> shell_exit demo_world ''/t/003/repo'' (task_md ''/t/003'') ''/usr/local/bin/claude''
              ''/t/003/execution.log'' \<noteq> 0
        \<and> \<not> success r)
   \<and> (1::nat) \<le> 2
   \<and> (\<exists>ex s'. executeWithConcurrency demo_world demo_files 2 [1, 1, 0] fresh = (Inr ex, s')
        \<and> length (results ex) = length demo_files
        \<and> completed (new_events fresh s') = length demo_files)"
proof -
  have h: "(1::nat) \<le> 2" by simp
  have x3: "shell_exit demo_world ''/t/003/repo'' (task_md ''/t/003'') ''/usr/local/bin/claude''
              ''/t/003/execution.log'' \<noteq> 0"
    by (simp add: demo_world_def)
  have three: "\<exists>r s'. runTask demo_world ''/t/003/task.md'' ''/t/003/execution.log'' fresh
          = (Inr r, s')
        \<and> SpawnAgent ''/t/003/repo'' (task_md ''/t/003'') ''/usr/local/bin/claude''
              ''/t/003/execution.log'' \<in> set (new_events fresh s')
        \<and> shell_exit demo_world ''/t/003/repo'' (task_md ''/t/003'') ''/usr/local/bin/claude''
              ''/t/003/execution.log'' \<noteq> 0
        \<and> \<not> success r"
    using conjunct1 [OF runTask_never_raises
        [of demo_world "''/t/003/task.md''" "''/t/003/execution.log''" fresh 2 demo_files
          "[1, 1, 0]"]]
      demo_run_003 x3
    by (auto simp: new_events_def fresh_def)
  note inst = runTask_never_raises
    [of demo_world "''/t/004/task.md''" "''/t/004/execution.log''" fresh 2 demo_files "[1, 1, 0]"]
  obtain r s' where
    run: "runTask demo_world ''/t/004/task.md'' ''/t/004/execution.log'' fresh = (Inr r, s')"
    and conv: "\<forall>ctx s1 msg s2. runTask_begin demo_world ''/t/004/task.md'' fresh = (Inr ctx, s1)
             \<and> runTask_try demo_world ''/t/004/task.md'' ''/t/004/execution.log'' ctx s1
                 = (Inl msg, s2) \<longrightarrow>
           \<not> success r \<and> error r = Some msg"
    using conjunct1 [OF inst] by (elim exE conjE) (rule that)
  have "\<not> success r
      \<and> error r = Some ''ENOENT: no such file or directory, open /t/004/task.md''"
    using conv demo_begin_004 demo_try_004 by blast
  then have one: "\<exists>r s'. runTask demo_world ''/t/004/task.md'' ''/t/004/execution.log'' fresh
          = (Inr r, s')
        \<and> \<not> success r
        \<and> error r = Some ''ENOENT: no such file or directory, open /t/004/task.md''"
    using run by blast
  have two: "\<exists>ex s'. executeWithConcurrency demo_world demo_files 2 [1, 1, 0] fresh = (Inr ex, s')
        \<and> length (results ex) = length demo_files
        \<and> completed (new_events fresh s') = length demo_files"
    using conjunct2 [OF inst, THEN mp, OF h] by blast
  show ?thesis
    using demo_begin_004 demo_try_004 one three h two by (intro conjI)
qed




end
